theory Spec2Isabelle
  imports Main "HOL-Library.Multiset"
begin

section \<open>Data model\<close>

subsection \<open>Configuration (package config)\<close>

text \<open>
  The collaborators held by a configuration are opaque to the code under study: only
  the way \<open>NewGitXargsConfig\<close> builds them is recorded.
\<close>

datatype GitProvider = GitProductionProvider | MockGitProvider

datatype GitClient = NewGitClient GitProvider

datatype RunStats = NewStatsTracker

datatype githubService = ProductionService | MockService

record GithubClient =
  PullRequests :: "githubService option"
  Repositories :: "githubService option"
  Host :: string

record GitXargsConfig =
  Draft :: bool
  DryRun :: bool
  SkipPullRequests :: bool
  SkipArchivedRepos :: bool
  MaxConcurrentRepos :: int
  BranchName :: string
  BaseBranchName :: string
  CommitMessage :: string
  PullRequestTitle :: string
  PullRequestDescription :: string
  ReposFile :: string
  GithubOrg :: string
  RepoSlice :: "string list"
  RepoFromStdIn :: "string list"
  Args :: "string list"
  GithubClient :: GithubClient
  GitClient :: GitClient
  Stats :: RunStats
  CloneBranch :: string
  CloneDepth :: int
  Assignees :: "string list"
  Internal :: bool

text \<open>
  The three default texts are constants of package \<open>common\<close>, which is not among the
  sources; they are taken as a parameter.
\<close>

record common =
  DefaultCommitMessage :: string
  DefaultPullRequestTitle :: string
  DefaultPullRequestDescription :: string

text \<open>Fields the composite literal leaves out get Go's zero value.\<close>

definition NewGitXargsConfig :: "common \<Rightarrow> GitXargsConfig" where
  "NewGitXargsConfig cm =
     \<lparr> Draft = False,
       DryRun = False,
       SkipPullRequests = False,
       SkipArchivedRepos = False,
       MaxConcurrentRepos = 0,
       BranchName = '''',
       BaseBranchName = '''',
       CommitMessage = DefaultCommitMessage cm,
       PullRequestTitle = DefaultPullRequestTitle cm,
       PullRequestDescription = DefaultPullRequestDescription cm,
       ReposFile = '''',
       GithubOrg = '''',
       RepoSlice = [],
       RepoFromStdIn = [],
       Args = [],
       GithubClient = \<lparr> PullRequests = None, Repositories = None, Host = '''' \<rparr>,
       GitClient = NewGitClient GitProductionProvider,
       Stats = NewStatsTracker,
       CloneBranch = '''',
       CloneDepth = 1,
       Assignees = [],
       Internal = False \<rparr>"

subsection \<open>Authentication (package auth)\<close>

datatype auth_error = NoGithubOauthTokenProvidedErr | WithStackTrace auth_error

type_synonym environ = "string \<rightharpoonup> string"

text \<open>\<open>os.Getenv\<close> gives the empty string for a variable that is not set.\<close>

definition Getenv :: "environ \<Rightarrow> string \<Rightarrow> string" where
  "Getenv env key = (case env key of None \<Rightarrow> '''' | Some v \<Rightarrow> v)"

definition EnsureGithubOauthTokenSet :: "environ \<Rightarrow> auth_error option" where
  "EnsureGithubOauthTokenSet env =
     (if Getenv env ''GITHUB_OAUTH_TOKEN'' = ''''
      then Some (WithStackTrace NoGithubOauthTokenProvidedErr)
      else None)"

subsection \<open>Repositories (package repository)\<close>

text \<open>Of \<open>github.Repository\<close> the code reads the name only.\<close>

datatype Repository = Repository (GetName: string)

text \<open>
  \<open>'l\<close> stands for go-git's repository handle; the pointer \<open>RepositoryLocal\<close> is
  \<open>None\<close> when nil.
\<close>

record 'l GitXargsRepository =
  RepositoryDir :: string
  RepositoryRemote :: Repository
  RepositoryLocal :: "'l option"
  Branch :: string

section \<open>The pipeline of one repository\<close>

text \<open>
  The steps that \<open>ProcessRepo\<close> and the orchestrator call are not among the sources.
  They are parameters of the model, with the signatures of their call sites: a step
  that returns values and an error is a sum (\<open>Inl\<close> the error), a step that returns
  an error only is an option (\<open>None\<close> is nil). \<open>'e\<close> is Go's \<open>error\<close>, \<open>'h\<close> the HEAD
  reference, \<open>'w\<close> the worktree. The branch step gives the reference name whose
  \<open>String()\<close> the pipeline stores.
\<close>

record ('e, 'l, 'w, 'h) Steps =
  cloneLocalRepository :: "GitXargsConfig \<Rightarrow> Repository \<Rightarrow> 'e + (string \<times> 'l)"
  getLocalRepoHeadRef :: "GitXargsConfig \<Rightarrow> 'l \<Rightarrow> Repository \<Rightarrow> 'e + 'h"
  getLocalWorkTree :: "string \<Rightarrow> 'l \<Rightarrow> Repository \<Rightarrow> 'e + 'w"
  checkoutLocalBranch :: "GitXargsConfig \<Rightarrow> 'h \<Rightarrow> 'w \<Rightarrow> Repository \<Rightarrow> 'l \<Rightarrow> 'e + string"
  executeCommand :: "GitXargsConfig \<Rightarrow> string \<Rightarrow> Repository \<Rightarrow> 'e option"
  UpdateRepoLocal :: "GitXargsConfig \<Rightarrow> string \<Rightarrow> 'w \<Rightarrow> Repository \<Rightarrow> 'l \<Rightarrow> 'e option"
  UpdateRepoRemote :: "GitXargsConfig \<Rightarrow> 'l GitXargsRepository \<Rightarrow> 'e option"

text \<open>
  The effect of a pipeline on the clone and on the remote host is the sequence of
  steps it invokes. Staging and committing happen in \<open>UpdateRepoLocal\<close>, pushing and
  opening the pull request in \<open>UpdateRepoRemote\<close>.
\<close>

datatype Call =
    Call_cloneLocalRepository
  | Call_getLocalRepoHeadRef
  | Call_getLocalWorkTree
  | Call_checkoutLocalBranch
  | Call_executeCommand
  | Call_UpdateRepoLocal
  | Call_UpdateRepoRemote

text \<open>
  \<open>ProcessRepo\<close> returns the composite result and the error (\<open>None\<close> is nil); the
  model returns in front of them the steps invoked so far.
\<close>

definition ProcessRepo ::
  "('e, 'l, 'w, 'h) Steps \<Rightarrow> GitXargsConfig \<Rightarrow> Repository
     \<Rightarrow> Call list \<times> 'l GitXargsRepository \<times> 'e option" where
  "ProcessRepo st config repo =
     (let gxargsrepo = \<lparr> RepositoryDir = '''', RepositoryRemote = repo,
                         RepositoryLocal = None, Branch = '''' \<rparr>
      in case cloneLocalRepository st config repo of
           Inl cloneErr \<Rightarrow> ([Call_cloneLocalRepository], gxargsrepo, Some cloneErr)
         | Inr (repositoryDir, localRepository) \<Rightarrow>
      (case getLocalRepoHeadRef st config localRepository repo of
           Inl headRefErr \<Rightarrow>
             ([Call_cloneLocalRepository, Call_getLocalRepoHeadRef], gxargsrepo,
              Some headRefErr)
         | Inr ref \<Rightarrow>
      (case getLocalWorkTree st repositoryDir localRepository repo of
           Inl worktreeErr \<Rightarrow>
             ([Call_cloneLocalRepository, Call_getLocalRepoHeadRef, Call_getLocalWorkTree],
              gxargsrepo, Some worktreeErr)
         | Inr worktree \<Rightarrow>
      (case checkoutLocalBranch st config ref worktree repo localRepository of
           Inl branchErr \<Rightarrow>
             ([Call_cloneLocalRepository, Call_getLocalRepoHeadRef, Call_getLocalWorkTree,
               Call_checkoutLocalBranch], gxargsrepo, Some branchErr)
         | Inr branchName \<Rightarrow>
      (let gxargsrepo = gxargsrepo \<lparr> Branch := branchName \<rparr>
       in case executeCommand st config repositoryDir repo of
            Some commandErr \<Rightarrow>
              ([Call_cloneLocalRepository, Call_getLocalRepoHeadRef, Call_getLocalWorkTree,
                Call_checkoutLocalBranch, Call_executeCommand], gxargsrepo, Some commandErr)
          | None \<Rightarrow>
       (case UpdateRepoLocal st config repositoryDir worktree repo localRepository of
            Some err \<Rightarrow>
              ([Call_cloneLocalRepository, Call_getLocalRepoHeadRef, Call_getLocalWorkTree,
                Call_checkoutLocalBranch, Call_executeCommand, Call_UpdateRepoLocal],
               gxargsrepo, None)
          | None \<Rightarrow>
              ([Call_cloneLocalRepository, Call_getLocalRepoHeadRef, Call_getLocalWorkTree,
                Call_checkoutLocalBranch, Call_executeCommand, Call_UpdateRepoLocal],
               gxargsrepo \<lparr> RepositoryDir := repositoryDir,
                            RepositoryLocal := Some localRepository \<rparr>,
               None)))))))"

section \<open>The orchestrator\<close>

subsection \<open>The counting semaphore\<close>

text \<open>
  Modelled from the spec: the sized wait group that \<open>ProcessRepos\<close> creates with
  \<open>sizedwaitgroup.New\<close> is a library outside the sources. The spec describes it as a
  counting semaphore with the concurrency ceiling as its size, and the comment at the
  call says that a size of zero "will fall back to unlimited"; a size that is not
  positive is taken as no ceiling. \<open>Add\<close> takes a slot and can be passed only while
  one is free, \<open>Done\<close> gives the slot back, \<open>Wait\<close> can be passed once no slot is
  taken. \<open>Done\<close> is called by a running task only, which holds a slot, so the counter
  is positive there.
\<close>

record SizedWaitGroup =
  Size :: int
  current :: nat

definition New :: "int \<Rightarrow> SizedWaitGroup" where
  "New limit = \<lparr> Size = limit, current = 0 \<rparr>"

definition Add :: "SizedWaitGroup \<Rightarrow> SizedWaitGroup option" where
  "Add swg =
     (if 0 < Size swg \<and> Size swg \<le> int (current swg) then None
      else Some (swg \<lparr> current := Suc (current swg) \<rparr>))"

definition Done :: "SizedWaitGroup \<Rightarrow> SizedWaitGroup" where
  "Done swg = swg \<lparr> current := current swg - 1 \<rparr>"

definition Wait :: "SizedWaitGroup \<Rightarrow> bool" where
  "Wait swg = (current swg = 0)"

subsection \<open>The body of a task\<close>

text \<open>
  The function literal that \<open>ProcessRepos\<close> starts for each repository, up to the
  statement that appends to the shared slice: the steps invoked, and either the error
  the literal returns (\<open>Inl\<close>) or the result it is about to append (\<open>Inr\<close>). The
  source lists the names as \<open>processLocalErr, gxargsrepo\<close> where \<open>ProcessRepo\<close> returns
  the result first and the error second; the model gives each name the result of its
  type, as every later use of the two names requires.
\<close>

definition task_body ::
  "('e, 'l, 'w, 'h) Steps \<Rightarrow> GitXargsConfig \<Rightarrow> Repository
     \<Rightarrow> Call list \<times> ('e + 'l GitXargsRepository)" where
  "task_body st gitxargsConfig repo =
     (case ProcessRepo st gitxargsConfig repo of
        (calls, gxargsrepo, Some processLocalErr) \<Rightarrow> (calls, Inl processLocalErr)
      | (calls, gxargsrepo, None) \<Rightarrow>
          (case UpdateRepoRemote st gitxargsConfig gxargsrepo of
             Some processRemoteErr \<Rightarrow>
               (calls @ [Call_UpdateRepoRemote], Inl processRemoteErr)
           | None \<Rightarrow> (calls @ [Call_UpdateRepoRemote], Inr gxargsrepo)))"

text \<open>What a task has done when it ends: the steps invoked and the value it returns.\<close>

definition task_result ::
  "('e, 'l, 'w, 'h) Steps \<Rightarrow> GitXargsConfig \<Rightarrow> Repository \<Rightarrow> Call list \<times> 'e option" where
  "task_result st gitxargsConfig repo =
     (case task_body st gitxargsConfig repo of
        (calls, Inl err) \<Rightarrow> (calls, Some err)
      | (calls, Inr gxargsrepo) \<Rightarrow> (calls, None))"

subsection \<open>Interleaved execution\<close>

text \<open>
  A task started by the \<open>go\<close> statement runs beside the loop and the other tasks.
  Its own pipeline touches nothing the others share, so it is one step. The append
  \<open>gitXargsRepositories = append(gitXargsRepositories, gxargsrepo)\<close> reads the shared
  variable and then assigns to it, with no lock around the two: they are two steps.
  The deferred \<open>wg.Done()\<close> is the last step.

  Each of the two steps takes the slice whole. That is what the program does as long
  as no second task is between its read and its assignment. When two tasks are inside
  the append together the accesses race: besides the lost element that the model
  shows, the program may then store a torn slice or stop with a panic, which the model
  does not show. What is stated below for every run does not depend on the contents of
  the slice; what depends on them is stated for runs in which no two tasks append.
\<close>

datatype ('e, 'l) Phase =
    Spawned
  | AtAppend "'l GitXargsRepository"
  | Holding "'l GitXargsRepository" "'l GitXargsRepository list"
  | Returning "'e option"

type_synonym ('e, 'l) Goroutine = "Repository \<times> Call list \<times> ('e, 'l) Phase"

text \<open>
  \<open>todo\<close> are the repositories the range loop has still to visit; \<open>finished\<close> logs
  each ended task with the value its function literal returned, which the \<open>go\<close>
  statement drops; \<open>returned\<close> is the pair \<open>ProcessRepos\<close> returns.
\<close>

record ('e, 'l) State =
  todo :: "Repository list"
  wg :: SizedWaitGroup
  goroutines :: "('e, 'l) Goroutine list"
  gitXargsRepositories :: "'l GitXargsRepository list"
  finished :: "(Repository \<times> Call list \<times> 'e option) list"
  returned :: "('l GitXargsRepository list \<times> 'e option) option"

definition init :: "GitXargsConfig \<Rightarrow> Repository list \<Rightarrow> ('e, 'l) State" where
  "init gitxargsConfig repos =
     \<lparr> todo = repos,
       wg = New (MaxConcurrentRepos gitxargsConfig),
       goroutines = [],
       gitXargsRepositories = [],
       finished = [],
       returned = None \<rparr>"

datatype Action = Loop_iteration | Goroutine nat | Wait_return

text \<open>One iteration of the range loop: \<open>wg.Add()\<close>, then the \<open>go\<close> statement.\<close>

definition loop_iteration :: "('e, 'l) State \<Rightarrow> ('e, 'l) State option" where
  "loop_iteration s =
     (case todo s of
        [] \<Rightarrow> None
      | repo # rest \<Rightarrow>
          (case Add (wg s) of
             None \<Rightarrow> None
           | Some swg \<Rightarrow>
               Some (s \<lparr> todo := rest, wg := swg,
                        goroutines := goroutines s @ [(repo, [], Spawned)] \<rparr>)))"

text \<open>One step of the task at position \<open>i\<close> among the running ones.\<close>

definition goroutine_step ::
  "('e, 'l, 'w, 'h) Steps \<Rightarrow> GitXargsConfig \<Rightarrow> nat \<Rightarrow> ('e, 'l) State
     \<Rightarrow> ('e, 'l) State option" where
  "goroutine_step st gitxargsConfig i s =
     (if length (goroutines s) \<le> i then None
      else case goroutines s ! i of
        (repo, calls, Spawned) \<Rightarrow>
          (case task_body st gitxargsConfig repo of
             (calls', Inl err) \<Rightarrow>
               Some (s \<lparr> goroutines := (goroutines s)[i := (repo, calls', Returning (Some err))] \<rparr>)
           | (calls', Inr gxargsrepo) \<Rightarrow>
               Some (s \<lparr> goroutines := (goroutines s)[i := (repo, calls', AtAppend gxargsrepo)] \<rparr>))
      | (repo, calls, AtAppend gxargsrepo) \<Rightarrow>
          Some (s \<lparr> goroutines :=
                     (goroutines s)[i := (repo, calls, Holding gxargsrepo (gitXargsRepositories s))] \<rparr>)
      | (repo, calls, Holding gxargsrepo seen) \<Rightarrow>
          Some (s \<lparr> gitXargsRepositories := seen @ [gxargsrepo],
                   goroutines := (goroutines s)[i := (repo, calls, Returning None)] \<rparr>)
      | (repo, calls, Returning err) \<Rightarrow>
          Some (s \<lparr> wg := Done (wg s),
                   goroutines := take i (goroutines s) @ drop (Suc i) (goroutines s),
                   finished := finished s @ [(repo, calls, err)] \<rparr>))"

text \<open>
  \<open>wg.Wait()\<close> follows the loop; once it is passed \<open>ProcessRepos\<close> returns the shared
  slice and the literal \<open>nil\<close>.
\<close>

definition wait_return :: "('e, 'l) State \<Rightarrow> ('e, 'l) State option" where
  "wait_return s =
     (if todo s = [] \<and> Wait (wg s)
      then Some (s \<lparr> returned := Some (gitXargsRepositories s, None) \<rparr>)
      else None)"

definition exec ::
  "('e, 'l, 'w, 'h) Steps \<Rightarrow> GitXargsConfig \<Rightarrow> Action \<Rightarrow> ('e, 'l) State
     \<Rightarrow> ('e, 'l) State option" where
  "exec st gitxargsConfig a s =
     (if returned s \<noteq> None then None
      else case a of
        Loop_iteration \<Rightarrow> loop_iteration s
      | Goroutine i \<Rightarrow> goroutine_step st gitxargsConfig i s
      | Wait_return \<Rightarrow> wait_return s)"

text \<open>A run of \<open>ProcessRepos\<close> under a schedule: the actions taken one after another.\<close>

fun run ::
  "('e, 'l, 'w, 'h) Steps \<Rightarrow> GitXargsConfig \<Rightarrow> Action list \<Rightarrow> ('e, 'l) State
     \<Rightarrow> ('e, 'l) State option" where
  "run st gitxargsConfig [] s = Some s"
| "run st gitxargsConfig (a # as) s =
     (case exec st gitxargsConfig a s of
        None \<Rightarrow> None
      | Some s' \<Rightarrow> run st gitxargsConfig as s')"

definition ProcessRepos ::
  "('e, 'l, 'w, 'h) Steps \<Rightarrow> GitXargsConfig \<Rightarrow> Repository list \<Rightarrow> Action list
     \<Rightarrow> ('e, 'l) State option" where
  "ProcessRepos st gitxargsConfig repos schedule =
     run st gitxargsConfig schedule (init gitxargsConfig repos)"

subsection \<open>Startup\<close>

text \<open>
  Modelled from the spec: the entry point of the command, which calls
  \<open>EnsureGithubOauthTokenSet\<close> and \<open>ProcessRepos\<close>, is not among the sources. The spec
  says that the absence of the access token "is a fatal startup error, not a
  per-repository error", which "halts before any repository is processed". So startup
  makes the check first and ends with its error (\<open>Inl\<close>) when there is one; only
  otherwise does it hand the repositories to the orchestrator (\<open>Inr\<close> its run).
\<close>

definition startup ::
  "environ \<Rightarrow> ('e, 'l, 'w, 'h) Steps \<Rightarrow> GitXargsConfig \<Rightarrow> Repository list \<Rightarrow> Action list
     \<Rightarrow> auth_error + ('e, 'l) State option" where
  "startup env st gitxargsConfig repos schedule =
     (case EnsureGithubOauthTokenSet env of
        Some err \<Rightarrow> Inl err
      | None \<Rightarrow> Inr (ProcessRepos st gitxargsConfig repos schedule))"

section \<open>Auxiliary notions\<close>

text \<open>All local steps of a pipeline, through \<open>UpdateRepoLocal\<close>, return without error.\<close>

definition local_steps_succeed ::
  "('e, 'l, 'w, 'h) Steps \<Rightarrow> GitXargsConfig \<Rightarrow> Repository \<Rightarrow> bool" where
  "local_steps_succeed st config repo =
     (case cloneLocalRepository st config repo of
        Inl cloneErr \<Rightarrow> False
      | Inr (repositoryDir, localRepository) \<Rightarrow>
     (case getLocalRepoHeadRef st config localRepository repo of
        Inl headRefErr \<Rightarrow> False
      | Inr ref \<Rightarrow>
     (case getLocalWorkTree st repositoryDir localRepository repo of
        Inl worktreeErr \<Rightarrow> False
      | Inr worktree \<Rightarrow>
     (case checkoutLocalBranch st config ref worktree repo localRepository of
        Inl branchErr \<Rightarrow> False
      | Inr branchName \<Rightarrow>
          executeCommand st config repositoryDir repo = None \<and>
          UpdateRepoLocal st config repositoryDir worktree repo localRepository = None))))"

text \<open>The state of a running task agrees with the body of its function literal.\<close>

fun goroutine_ok ::
  "('e, 'l, 'w, 'h) Steps \<Rightarrow> GitXargsConfig \<Rightarrow> ('e, 'l) Goroutine \<Rightarrow> bool" where
  "goroutine_ok st cfg (repo, calls, Spawned) = True"
| "goroutine_ok st cfg (repo, calls, AtAppend gx) = (task_body st cfg repo = (calls, Inr gx))"
| "goroutine_ok st cfg (repo, calls, Holding gx seen) = (task_body st cfg repo = (calls, Inr gx))"
| "goroutine_ok st cfg (repo, calls, Returning err) = (task_result st cfg repo = (calls, err))"

text \<open>The steps a task in a given phase has still to take.\<close>

fun steps_left :: "('e, 'l) Phase \<Rightarrow> nat" where
  "steps_left Spawned = 4"
| "steps_left (AtAppend gx) = 3"
| "steps_left (Holding gx seen) = 2"
| "steps_left (Returning err) = 1"

definition actions_left :: "('e, 'l) State \<Rightarrow> nat" where
  "actions_left s =
     5 * length (todo s) + sum_list (map (\<lambda>g. steps_left (snd (snd g))) (goroutines s))
       + (if returned s = None then 1 else 0)"

definition invariant ::
  "('e, 'l, 'w, 'h) Steps \<Rightarrow> GitXargsConfig \<Rightarrow> Repository list \<Rightarrow> ('e, 'l) State \<Rightarrow> bool" where
  "invariant st cfg repos s \<longleftrightarrow>
     Size (wg s) = MaxConcurrentRepos cfg \<and>
     current (wg s) = length (goroutines s) \<and>
     (0 < Size (wg s) \<longrightarrow> int (length (goroutines s)) \<le> Size (wg s)) \<and>
     mset (todo s) + mset (map fst (goroutines s)) + mset (map fst (finished s)) = mset repos \<and>
     (\<forall>g \<in> set (goroutines s). goroutine_ok st cfg g) \<and>
     (\<forall>f \<in> set (finished s). snd f = task_result st cfg (fst f)) \<and>
     (returned s \<noteq> None \<longrightarrow> todo s = [] \<and> goroutines s = [])"

text \<open>
  What a task appends, what a running task has appended so far, and whether the slice
  a task has read is still the shared one. With a ceiling of one the tasks run one
  after the other, and the shared slice grows in the order of the input.
\<close>

definition appended ::
  "('e, 'l, 'w, 'h) Steps \<Rightarrow> GitXargsConfig \<Rightarrow> Repository \<Rightarrow> 'l GitXargsRepository list" where
  "appended st cfg repo =
     (case snd (task_body st cfg repo) of Inl err \<Rightarrow> [] | Inr gxargsrepo \<Rightarrow> [gxargsrepo])"

fun written ::
  "('e, 'l, 'w, 'h) Steps \<Rightarrow> GitXargsConfig \<Rightarrow> ('e, 'l) Goroutine
     \<Rightarrow> 'l GitXargsRepository list" where
  "written st cfg (repo, calls, Returning err) = appended st cfg repo"
| "written st cfg (repo, calls, Spawned) = []"
| "written st cfg (repo, calls, AtAppend gx) = []"
| "written st cfg (repo, calls, Holding gx seen) = []"

fun seen_current :: "'l GitXargsRepository list \<Rightarrow> ('e, 'l) Goroutine \<Rightarrow> bool" where
  "seen_current shared (repo, calls, Holding gx seen) = (seen = shared)"
| "seen_current shared (repo, calls, Spawned) = True"
| "seen_current shared (repo, calls, AtAppend gx) = True"
| "seen_current shared (repo, calls, Returning err) = True"

definition serial_invariant ::
  "('e, 'l, 'w, 'h) Steps \<Rightarrow> GitXargsConfig \<Rightarrow> Repository list \<Rightarrow> ('e, 'l) State \<Rightarrow> bool" where
  "serial_invariant st cfg repos s \<longleftrightarrow>
     repos = map fst (finished s) @ map fst (goroutines s) @ todo s \<and>
     gitXargsRepositories s =
       concat (map (appended st cfg) (map fst (finished s))) @
       concat (map (written st cfg) (goroutines s)) \<and>
     (\<forall>g \<in> set (goroutines s). seen_current (gitXargsRepositories s) g) \<and>
     (\<forall>res. returned s = Some res \<longrightarrow> fst res = gitXargsRepositories s)"

text \<open>
  When at most one task of the run gets as far as the append, the shared slice holds
  what the ended and the running tasks have appended, whatever the ceiling.
\<close>

definition lone_invariant ::
  "('e, 'l, 'w, 'h) Steps \<Rightarrow> GitXargsConfig \<Rightarrow> ('e, 'l) State \<Rightarrow> bool" where
  "lone_invariant st cfg s \<longleftrightarrow>
     mset (gitXargsRepositories s) =
       mset (concat (map (appended st cfg) (map fst (finished s)))) +
       mset (concat (map (written st cfg) (goroutines s))) \<and>
     (\<forall>g \<in> set (goroutines s). seen_current (gitXargsRepositories s) g) \<and>
     (\<forall>res. returned s = Some res \<longrightarrow> fst res = gitXargsRepositories s)"

section \<open>A deterministic double of the steps\<close>

text \<open>
  The steps are exercised through a double in the manner of the mock provider: a step
  fails for a repository exactly when the script names it, with the step as the error.
\<close>

definition double :: "(Repository \<Rightarrow> Call option) \<Rightarrow> (Call, string, string, string) Steps" where
  "double script =
     \<lparr> cloneLocalRepository = (\<lambda>config repo.
         if script repo = Some Call_cloneLocalRepository then Inl Call_cloneLocalRepository
         else Inr (''/tmp/git-xargs-'' @ GetName repo, GetName repo)),
       getLocalRepoHeadRef = (\<lambda>config localRepository repo.
         if script repo = Some Call_getLocalRepoHeadRef then Inl Call_getLocalRepoHeadRef
         else Inr ''HEAD''),
       getLocalWorkTree = (\<lambda>repositoryDir localRepository repo.
         if script repo = Some Call_getLocalWorkTree then Inl Call_getLocalWorkTree
         else Inr repositoryDir),
       checkoutLocalBranch = (\<lambda>config ref worktree repo localRepository.
         if script repo = Some Call_checkoutLocalBranch then Inl Call_checkoutLocalBranch
         else Inr (''refs/heads/'' @ BranchName config)),
       executeCommand = (\<lambda>config repositoryDir repo.
         if script repo = Some Call_executeCommand then Some Call_executeCommand else None),
       UpdateRepoLocal = (\<lambda>config repositoryDir worktree repo localRepository.
         if script repo = Some Call_UpdateRepoLocal then Some Call_UpdateRepoLocal else None),
       UpdateRepoRemote = (\<lambda>config gxargsrepo.
         if script (RepositoryRemote gxargsrepo) = Some Call_UpdateRepoRemote
         then Some Call_UpdateRepoRemote else None) \<rparr>"

definition all_succeed :: "(Call, string, string, string) Steps" where
  "all_succeed = double (\<lambda>repo. None)"

definition clone_fails_for_a :: "(Call, string, string, string) Steps" where
  "clone_fails_for_a =
     double (\<lambda>repo. if GetName repo = ''a'' then Some Call_cloneLocalRepository else None)"

definition head_fails :: "(Call, string, string, string) Steps" where
  "head_fails = double (\<lambda>repo. Some Call_getLocalRepoHeadRef)"

definition command_fails :: "(Call, string, string, string) Steps" where
  "command_fails = double (\<lambda>repo. Some Call_executeCommand)"

definition staging_fails :: "(Call, string, string, string) Steps" where
  "staging_fails = double (\<lambda>repo. Some Call_UpdateRepoLocal)"

definition sample_common :: common where
  "sample_common =
     \<lparr> DefaultCommitMessage = ''programmatic commit'',
       DefaultPullRequestTitle = ''programmatic pull request'',
       DefaultPullRequestDescription = ''programmatic pull request'' \<rparr>"

definition default_config :: GitXargsConfig where
  "default_config = (NewGitXargsConfig sample_common) \<lparr> BranchName := ''fix'' \<rparr>"

definition config_two_at_once :: GitXargsConfig where
  "config_two_at_once = default_config \<lparr> MaxConcurrentRepos := 2 \<rparr>"

definition config_one_at_a_time :: GitXargsConfig where
  "config_one_at_a_time = default_config \<lparr> MaxConcurrentRepos := 1 \<rparr>"

definition repo_a :: Repository where
  "repo_a = Repository ''a''"

definition repo_b :: Repository where
  "repo_b = Repository ''b''"

definition repo_c :: Repository where
  "repo_c = Repository ''c''"

text \<open>Two tasks that both read the shared slice before either assigns to it.\<close>

definition racing_schedule :: "Action list" where
  "racing_schedule =
     [Loop_iteration, Loop_iteration,
      Goroutine 0, Goroutine 1,
      Goroutine 0, Goroutine 1,
      Goroutine 0, Goroutine 1,
      Goroutine 0, Goroutine 0,
      Wait_return]"

text \<open>The results and schedules of the sample runs.\<close>

definition processed :: "string \<Rightarrow> string GitXargsRepository" where
  "processed name =
     \<lparr> RepositoryDir = ''/tmp/git-xargs-'' @ name, RepositoryRemote = Repository name,
       RepositoryLocal = Some name, Branch = ''refs/heads/fix'' \<rparr>"

definition every_call :: "Call list" where
  "every_call =
     [Call_cloneLocalRepository, Call_getLocalRepoHeadRef, Call_getLocalWorkTree,
      Call_checkoutLocalBranch, Call_executeCommand, Call_UpdateRepoLocal,
      Call_UpdateRepoRemote]"

definition one_task_two_steps :: "Action list" where
  "one_task_two_steps = [Loop_iteration, Goroutine 0, Goroutine 0, Wait_return]"

definition failure_then_success :: "Action list" where
  "failure_then_success =
     [Loop_iteration, Loop_iteration,
      Goroutine 0, Goroutine 0,
      Goroutine 0, Goroutine 0, Goroutine 0, Goroutine 0,
      Wait_return]"

definition one_after_the_other :: "Action list" where
  "one_after_the_other =
     [Loop_iteration, Goroutine 0, Goroutine 0,
      Loop_iteration, Goroutine 0, Goroutine 0, Goroutine 0, Goroutine 0,
      Wait_return]"

section \<open>Invariants of a run\<close>

subsection \<open>Lists with one position changed or removed\<close>

lemma mset_without_nth:
  assumes "i < length xs"
  shows "mset (take i xs @ drop (Suc i) xs) + {#xs ! i#} = mset xs"
proof -
  have "xs = take i xs @ xs ! i # drop (Suc i) xs"
    using assms by (rule id_take_nth_drop)
  then have "mset xs = mset (take i xs @ xs ! i # drop (Suc i) xs)"
    by simp
  then show ?thesis
    by simp
qed

lemma set_without_nth: "set (take i xs @ drop (Suc i) xs) \<subseteq> set xs"
  using set_take_subset [of i xs] set_drop_subset [of "Suc i" xs] by auto

lemma map_fst_update_same:
  assumes "i < length gs" and "fst (gs ! i) = r"
  shows "map fst (gs[i := (r, x)]) = map fst gs"
  using assms by (simp add: map_update list_update_same_conv)

lemma in_set_updateD: "g \<in> set (gs[i := g']) \<Longrightarrow> g = g' \<or> g \<in> set gs"
  using set_update_subset_insert [of gs i g'] by auto

subsection \<open>The invariant holds in every state of a run\<close>

text \<open>
  The semaphore counts the running tasks; every repository is still to be visited,
  running or ended; and a running or ended task agrees with the body of its function
  literal.
\<close>

lemma invariant_init: "invariant st cfg repos (init cfg repos)"
  by (simp add: invariant_def init_def New_def)

lemma invariant_loop_iteration:
  assumes "invariant st cfg repos s" and "returned s = None" and "loop_iteration s = Some s'"
  shows "invariant st cfg repos s'"
  using assms
  by (auto simp: invariant_def loop_iteration_def Add_def split: list.splits if_splits)

lemma invariant_wait_return:
  assumes "invariant st cfg repos s" and "returned s = None" and "wait_return s = Some s'"
  shows "invariant st cfg repos s'"
  using assms
  by (auto simp: invariant_def wait_return_def Wait_def split: if_splits)

lemma task_result_of_body:
  "task_body st cfg repo = (calls, Inr gx) \<Longrightarrow> task_result st cfg repo = (calls, None)"
  "task_body st cfg repo = (calls, Inl err) \<Longrightarrow> task_result st cfg repo = (calls, Some err)"
  by (simp_all add: task_result_def)

lemma invariant_goroutine_step:
  assumes inv: "invariant st cfg repos s" and "returned s = None"
    and step: "goroutine_step st cfg i s = Some s'"
  shows "invariant st cfg repos s'"
proof -
  from step have i: "i < length (goroutines s)"
    by (auto simp: goroutine_step_def split: if_splits)
  obtain repo calls ph where g: "goroutines s ! i = (repo, calls, ph)"
    by (cases "goroutines s ! i") auto
  have mem: "(repo, calls, ph) \<in> set (goroutines s)"
    using i g by (metis nth_mem)
  have all_ok: "\<forall>g \<in> set (goroutines s). goroutine_ok st cfg g"
    using inv by (simp add: invariant_def)
  have ok: "goroutine_ok st cfg (repo, calls, ph)"
    using all_ok mem by blast
  have fst_i: "fst (goroutines s ! i) = repo"
    using g by simp
  show ?thesis
  proof (cases ph)
    case Spawned
    show ?thesis
    proof (cases "task_body st cfg repo")
      case (Pair calls' out)
      show ?thesis
      proof (cases out)
        case (Inl err)
        with Pair Spawned step i g
        have s': "s' = s \<lparr> goroutines := (goroutines s)[i := (repo, calls', Returning (Some err))] \<rparr>"
          by (simp add: goroutine_step_def)
        have "task_result st cfg repo = (calls', Some err)"
          using Pair Inl by (simp add: task_result_of_body)
        then show ?thesis
          using inv assms(2) i fst_i unfolding s'
          by (auto simp: invariant_def map_fst_update_same dest!: in_set_updateD)
      next
        case (Inr gx)
        with Pair Spawned step i g
        have s': "s' = s \<lparr> goroutines := (goroutines s)[i := (repo, calls', AtAppend gx)] \<rparr>"
          by (simp add: goroutine_step_def)
        show ?thesis
          using inv assms(2) i fst_i Pair Inr unfolding s'
          by (auto simp: invariant_def map_fst_update_same dest!: in_set_updateD)
      qed
    qed
  next
    case (AtAppend gx)
    with step i g
    have s': "s' = s \<lparr> goroutines :=
        (goroutines s)[i := (repo, calls, Holding gx (gitXargsRepositories s))] \<rparr>"
      by (simp add: goroutine_step_def)
    show ?thesis
      using inv assms(2) i fst_i ok AtAppend unfolding s'
      by (auto simp: invariant_def map_fst_update_same dest!: in_set_updateD)
  next
    case (Holding gx seen)
    with step i g
    have s': "s' = s \<lparr> gitXargsRepositories := seen @ [gx],
        goroutines := (goroutines s)[i := (repo, calls, Returning None)] \<rparr>"
      by (simp add: goroutine_step_def)
    have "task_result st cfg repo = (calls, None)"
      using ok Holding by (simp add: task_result_of_body)
    then show ?thesis
      using inv assms(2) i fst_i Holding unfolding s'
      by (auto simp: invariant_def map_fst_update_same dest!: in_set_updateD)
  next
    case (Returning err)
    with step i g
    have s': "s' = s \<lparr> wg := Done (wg s),
        goroutines := take i (goroutines s) @ drop (Suc i) (goroutines s),
        finished := finished s @ [(repo, calls, err)] \<rparr>"
      by (simp add: goroutine_step_def)
    have res: "task_result st cfg repo = (calls, err)"
      using ok Returning by simp
    have m: "mset (map fst (take i (goroutines s) @ drop (Suc i) (goroutines s))) + {#repo#}
        = mset (map fst (goroutines s))"
      using mset_without_nth [of i "map fst (goroutines s)"] i fst_i
      by (simp add: take_map drop_map)
    have sub: "set (take i (goroutines s) @ drop (Suc i) (goroutines s)) \<subseteq> set (goroutines s)"
      by (rule set_without_nth)
    have len: "length (take i (goroutines s) @ drop (Suc i) (goroutines s)) = length (goroutines s) - 1"
      using i by simp
    have acct: "mset (todo s) + mset (map fst (goroutines s)) + mset (map fst (finished s)) = mset repos"
      using inv by (simp add: invariant_def)
    have acct': "mset (todo s) + mset (map fst (take i (goroutines s) @ drop (Suc i) (goroutines s)))
         + mset (map fst (finished s @ [(repo, calls, err)])) = mset repos"
      unfolding acct [symmetric] m [symmetric] by simp
    show ?thesis
      unfolding invariant_def s'
      using inv assms(2) i res sub len acct'
      by (auto simp: invariant_def Done_def simp del: mset_append mset_map)
  qed
qed

lemma invariant_exec:
  assumes inv: "invariant st cfg repos s" and ex: "exec st cfg a s = Some s'"
  shows "invariant st cfg repos s'"
proof -
  from ex have ret: "returned s = None"
    by (cases "returned s") (simp_all add: exec_def)
  show ?thesis
  proof (cases a)
    case Loop_iteration
    with ex ret have "loop_iteration s = Some s'" by (simp add: exec_def)
    with inv ret show ?thesis by (rule invariant_loop_iteration)
  next
    case (Goroutine i)
    with ex ret have "goroutine_step st cfg i s = Some s'" by (simp add: exec_def)
    with inv ret show ?thesis by (rule invariant_goroutine_step)
  next
    case Wait_return
    with ex ret have "wait_return s = Some s'" by (simp add: exec_def)
    with inv ret show ?thesis by (rule invariant_wait_return)
  qed
qed

lemma invariant_run:
  assumes "invariant st cfg repos s" and "run st cfg acts s = Some s'"
  shows "invariant st cfg repos s'"
  using assms
proof (induction acts arbitrary: s)
  case Nil
  then show ?case by simp
next
  case (Cons a acts)
  then show ?case
    by (auto split: option.splits dest: invariant_exec)
qed

lemma invariant_ProcessRepos:
  "ProcessRepos st cfg repos schedule = Some s \<Longrightarrow> invariant st cfg repos s"
  unfolding ProcessRepos_def using invariant_init invariant_run by blast

subsection \<open>Every action brings the run closer to its end\<close>

lemma sum_list_update_nth:
  fixes f :: "'a \<Rightarrow> nat"
  assumes "i < length xs"
  shows "sum_list (map f (xs[i := y])) + f (xs ! i) = sum_list (map f xs) + f y"
proof -
  have xs: "xs = take i xs @ xs ! i # drop (Suc i) xs"
    using assms by (rule id_take_nth_drop)
  have "xs[i := y] = take i xs @ y # drop (Suc i) xs"
    using assms by (rule upd_conv_take_nth_drop)
  then have "sum_list (map f (xs[i := y])) + f (xs ! i)
      = sum_list (map f (take i xs @ xs ! i # drop (Suc i) xs)) + f y"
    by simp
  then show ?thesis
    using xs by simp
qed

lemma sum_list_without_nth:
  fixes f :: "'a \<Rightarrow> nat"
  assumes "i < length xs"
  shows "sum_list (map f (take i xs @ drop (Suc i) xs)) + f (xs ! i) = sum_list (map f xs)"
proof -
  have "xs = take i xs @ xs ! i # drop (Suc i) xs"
    using assms by (rule id_take_nth_drop)
  then have "sum_list (map f xs) = sum_list (map f (take i xs @ xs ! i # drop (Suc i) xs))"
    by simp
  then show ?thesis
    by simp
qed

lemma goroutine_step_decreases:
  assumes "goroutine_step st cfg i s = Some s'"
  shows "actions_left s' < actions_left s"
proof -
  let ?w = "\<lambda>g :: ('a, 'b) Goroutine. steps_left (snd (snd g))"
  from assms have i: "i < length (goroutines s)"
    by (auto simp: goroutine_step_def split: if_splits)
  obtain repo calls ph where g: "goroutines s ! i = (repo, calls, ph)"
    by (cases "goroutines s ! i") auto
  have upd: "sum_list (map ?w ((goroutines s)[i := y])) + steps_left ph
      = sum_list (map ?w (goroutines s)) + ?w y" for y
    using sum_list_update_nth [OF i, of ?w y] g by simp
  have del: "sum_list (map ?w (take i (goroutines s) @ drop (Suc i) (goroutines s))) + steps_left ph
      = sum_list (map ?w (goroutines s))"
    using sum_list_without_nth [OF i, of ?w] g by simp
  show ?thesis
  proof (cases ph)
    case Spawned
    obtain calls' out where body: "task_body st cfg repo = (calls', out)"
      by (cases "task_body st cfg repo") auto
    show ?thesis
    proof (cases out)
      case (Inl err)
      then show ?thesis
        using assms i g Spawned body upd [of "(repo, calls', Returning (Some err))"]
        by (auto simp: goroutine_step_def actions_left_def)
    next
      case (Inr gx)
      then show ?thesis
        using assms i g Spawned body upd [of "(repo, calls', AtAppend gx)"]
        by (auto simp: goroutine_step_def actions_left_def)
    qed
  next
    case (AtAppend gx)
    then show ?thesis
      using assms i g upd [of "(repo, calls, Holding gx (gitXargsRepositories s))"]
      by (auto simp: goroutine_step_def actions_left_def)
  next
    case (Holding gx seen)
    then show ?thesis
      using assms i g upd [of "(repo, calls, Returning None)"]
      by (auto simp: goroutine_step_def actions_left_def)
  next
    case (Returning err)
    then show ?thesis
      using assms i g del
      by (auto simp: goroutine_step_def actions_left_def)
  qed
qed

lemma exec_decreases:
  assumes "exec st cfg a s = Some s'"
  shows "actions_left s' < actions_left s"
proof -
  from assms have ret: "returned s = None"
    by (cases "returned s") (simp_all add: exec_def)
  show ?thesis
  proof (cases a)
    case Loop_iteration
    with assms ret show ?thesis
      by (auto simp: exec_def loop_iteration_def actions_left_def split: list.splits option.splits)
  next
    case (Goroutine i)
    with assms ret show ?thesis
      by (simp add: exec_def goroutine_step_decreases)
  next
    case Wait_return
    with assms ret show ?thesis
      by (auto simp: exec_def wait_return_def actions_left_def split: if_splits)
  qed
qed

lemma run_bounded:
  assumes "run st cfg acts s = Some s'"
  shows "length acts + actions_left s' \<le> actions_left s"
  using assms
proof (induction acts arbitrary: s)
  case Nil
  then show ?case by simp
next
  case (Cons a acts)
  from Cons.prems obtain t where t: "exec st cfg a s = Some t" and r: "run st cfg acts t = Some s'"
    by (auto split: option.splits)
  from Cons.IH [OF r] exec_decreases [OF t] show ?case
    by simp
qed

subsection \<open>No task waits for another\<close>

lemma goroutine_can_step:
  assumes "returned s = None" and "i < length (goroutines s)"
  shows "\<exists>s'. exec st cfg (Goroutine i) s = Some s'"
proof -
  obtain repo calls ph where g: "goroutines s ! i = (repo, calls, ph)"
    by (cases "goroutines s ! i") auto
  show ?thesis
    using assms g
    by (cases ph) (auto simp: exec_def goroutine_step_def split: prod.splits sum.splits)
qed

lemma never_stuck:
  assumes inv: "invariant st cfg repos s" and ret: "returned s = None"
  shows "\<exists>a s'. exec st cfg a s = Some s'"
proof (cases "goroutines s")
  case (Cons g gs)
  then have "0 < length (goroutines s)" by simp
  with ret goroutine_can_step show ?thesis by blast
next
  case Nil
  with inv have cur: "current (wg s) = 0"
    by (simp add: invariant_def)
  show ?thesis
  proof (cases "todo s")
    case Nil
    with cur ret have "exec st cfg Wait_return s \<noteq> None"
      by (simp add: exec_def wait_return_def Wait_def)
    then show ?thesis by blast
  next
    case (Cons repo rest)
    with cur ret have "exec st cfg Loop_iteration s \<noteq> None"
      by (simp add: exec_def loop_iteration_def Add_def)
    then show ?thesis by blast
  qed
qed

subsection \<open>What a returned run has done\<close>

lemma finished_all:
  assumes inv: "invariant st cfg repos s" and ret: "returned s \<noteq> None"
  shows "mset (finished s) = mset (map (\<lambda>repo. (repo, task_result st cfg repo)) repos)"
proof -
  have fin: "\<forall>f \<in> set (finished s). snd f = task_result st cfg (fst f)"
    using inv by (simp add: invariant_def)
  have "todo s = []" and "goroutines s = []"
    using inv ret by (simp_all add: invariant_def)
  then have acct: "mset (map fst (finished s)) = mset repos"
    using inv by (simp add: invariant_def)
  have "map (\<lambda>repo. (repo, task_result st cfg repo)) (map fst (finished s)) = finished s"
    using fin by (auto intro!: map_idI simp: prod_eq_iff)
  then have "mset (finished s)
      = image_mset (\<lambda>repo. (repo, task_result st cfg repo)) (mset (map fst (finished s)))"
    by (metis mset_map)
  then show ?thesis
    unfolding acct by simp
qed

subsection \<open>Without a ceiling every task can be started at once\<close>

lemma all_at_once:
  assumes "Size (wg s) \<le> 0" and "returned s = None"
  shows "\<exists>s'. run st cfg (replicate (length (todo s)) Loop_iteration) s = Some s'
           \<and> map fst (goroutines s') = map fst (goroutines s) @ todo s"
  using assms
proof (induction "todo s" arbitrary: s)
  case Nil
  then show ?case by simp
next
  case (Cons repo rest)
  let ?t = "s \<lparr> todo := rest, wg := (wg s) \<lparr> current := Suc (current (wg s)) \<rparr>,
                goroutines := goroutines s @ [(repo, [], Spawned)] \<rparr>"
  have ex: "exec st cfg Loop_iteration s = Some ?t"
    using Cons.prems Cons.hyps(2) [symmetric]
    by (simp add: exec_def loop_iteration_def Add_def)
  have "\<exists>s'. run st cfg (replicate (length (todo ?t)) Loop_iteration) ?t = Some s'
           \<and> map fst (goroutines s') = map fst (goroutines ?t) @ todo ?t"
    using Cons.prems by (intro Cons.hyps(1)) simp_all
  then show ?case
    using ex Cons.hyps(2) [symmetric] by auto
qed

subsection \<open>A task that appends had no error\<close>

lemma task_body_InrD:
  assumes "snd (task_body st cfg repo) = Inr gx"
  shows "\<exists>calls. ProcessRepo st cfg repo = (calls, gx, None) \<and> UpdateRepoRemote st cfg gx = None"
  using assms
  by (auto simp: task_body_def split: prod.splits option.splits)

subsection \<open>With a ceiling of one nothing is lost\<close>

lemma serial_invariant_init: "serial_invariant st cfg repos (init cfg repos)"
  by (simp add: serial_invariant_def init_def)

lemma serial_loop_iteration:
  assumes "invariant st cfg repos s" and "Size (wg s) = 1" and "returned s = None"
    and "serial_invariant st cfg repos s" and "loop_iteration s = Some s'"
  shows "serial_invariant st cfg repos s'"
proof -
  from assms(5) obtain repo rest where todo: "todo s = repo # rest"
    by (auto simp: loop_iteration_def split: list.splits)
  from assms(5) todo assms(2) have "current (wg s) = 0"
    by (auto simp: loop_iteration_def Add_def split: if_splits)
  with assms(1) have none: "goroutines s = []"
    by (simp add: invariant_def)
  from assms(5) todo have s': "goroutines s' = goroutines s @ [(repo, [], Spawned)]"
    "todo s' = rest" "finished s' = finished s" "returned s' = returned s"
    "gitXargsRepositories s' = gitXargsRepositories s"
    by (auto simp: loop_iteration_def split: option.splits)
  show ?thesis
    using assms(3,4) todo none unfolding serial_invariant_def s'
    by simp
qed

lemma serial_wait_return:
  assumes "serial_invariant st cfg repos s" and "wait_return s = Some s'"
  shows "serial_invariant st cfg repos s'"
  using assms by (auto simp: serial_invariant_def wait_return_def split: if_splits)

lemma serial_goroutine_step:
  assumes inv: "invariant st cfg repos s" and size: "Size (wg s) = 1" and ret: "returned s = None"
    and ser: "serial_invariant st cfg repos s" and step: "goroutine_step st cfg i s = Some s'"
  shows "serial_invariant st cfg repos s'"
proof -
  from step have i: "i < length (goroutines s)"
    by (auto simp: goroutine_step_def split: if_splits)
  have "int (length (goroutines s)) \<le> 1"
    using inv size by (simp add: invariant_def)
  with i have i0: "i = 0" and len: "length (goroutines s) = 1"
    by simp_all
  then obtain g where gs: "goroutines s = [g]"
    by (cases "goroutines s") auto
  obtain repo calls ph where g: "g = (repo, calls, ph)"
    by (cases g) auto
  have ok: "goroutine_ok st cfg (repo, calls, ph)"
    using inv gs g by (simp add: invariant_def)
  have "\<forall>g \<in> set (goroutines s). seen_current (gitXargsRepositories s) g"
    using ser unfolding serial_invariant_def by blast
  then have seen: "seen_current (gitXargsRepositories s) (repo, calls, ph)"
    using gs g by simp
  show ?thesis
  proof (cases ph)
    case Spawned
    obtain calls' out where body: "task_body st cfg repo = (calls', out)"
      by (cases "task_body st cfg repo") auto
    show ?thesis
    proof (cases out)
      case (Inl err)
      then show ?thesis
        using step ser ret gs g i0 Spawned body
        by (auto simp: goroutine_step_def serial_invariant_def appended_def)
    next
      case (Inr gx)
      then show ?thesis
        using step ser ret gs g i0 Spawned body
        by (auto simp: goroutine_step_def serial_invariant_def)
    qed
  next
    case (AtAppend gx)
    then show ?thesis
      using step ser ret gs g i0
      by (auto simp: goroutine_step_def serial_invariant_def)
  next
    case (Holding gx seen)
    then show ?thesis
      using step ser ret gs g i0 ok seen
      by (auto simp: goroutine_step_def serial_invariant_def appended_def)
  next
    case (Returning err)
    then show ?thesis
      using step ser ret gs g i0
      by (auto simp: goroutine_step_def serial_invariant_def)
  qed
qed

lemma wg_Size_exec:
  assumes "exec st cfg a s = Some s'"
  shows "Size (wg s') = Size (wg s)"
proof -
  from assms have ret: "returned s = None"
    by (cases "returned s") (simp_all add: exec_def)
  show ?thesis
  proof (cases a)
    case Loop_iteration
    with assms ret show ?thesis
      by (auto simp: exec_def loop_iteration_def Add_def split: list.splits if_splits)
  next
    case (Goroutine i)
    obtain repo calls ph where g: "goroutines s ! i = (repo, calls, ph)"
      by (cases "goroutines s ! i") auto
    from Goroutine assms ret g show ?thesis
      by (cases ph)
        (auto simp: exec_def goroutine_step_def Done_def split: if_splits prod.splits sum.splits)
  next
    case Wait_return
    with assms ret show ?thesis
      by (auto simp: exec_def wait_return_def split: if_splits)
  qed
qed

lemma serial_exec:
  assumes inv: "invariant st cfg repos s" and size: "Size (wg s) = 1"
    and ser: "serial_invariant st cfg repos s" and ex: "exec st cfg a s = Some s'"
  shows "serial_invariant st cfg repos s'"
proof -
  from ex have ret: "returned s = None"
    by (cases "returned s") (simp_all add: exec_def)
  show ?thesis
  proof (cases a)
    case Loop_iteration
    with ex ret have "loop_iteration s = Some s'" by (simp add: exec_def)
    with inv size ret ser show ?thesis by (rule serial_loop_iteration)
  next
    case (Goroutine i)
    with ex ret have "goroutine_step st cfg i s = Some s'" by (simp add: exec_def)
    with inv size ret ser show ?thesis by (rule serial_goroutine_step)
  next
    case Wait_return
    with ex ret have "wait_return s = Some s'" by (simp add: exec_def)
    with ser show ?thesis by (rule serial_wait_return)
  qed
qed

lemma serial_run:
  assumes "invariant st cfg repos s" and "Size (wg s) = 1"
    and "serial_invariant st cfg repos s" and "run st cfg acts s = Some s'"
  shows "serial_invariant st cfg repos s'"
  using assms
proof (induction acts arbitrary: s)
  case Nil
  then show ?case by simp
next
  case (Cons a acts)
  from Cons.prems(4) obtain t where t: "exec st cfg a s = Some t"
    and r: "run st cfg acts t = Some s'"
    by (auto split: option.splits)
  have "invariant st cfg repos t"
    using Cons.prems(1) t by (rule invariant_exec)
  moreover have "Size (wg t) = 1"
    using wg_Size_exec [OF t] Cons.prems(2) by simp
  moreover have "serial_invariant st cfg repos t"
    using Cons.prems(1,2,3) t by (rule serial_exec)
  ultimately show ?case
    using r by (rule Cons.IH)
qed

lemma serial_ProcessRepos:
  assumes "MaxConcurrentRepos cfg = 1" and "ProcessRepos st cfg repos schedule = Some s"
    and "returned s = Some (results, err)"
  shows "results = concat (map (appended st cfg) repos)"
proof -
  let ?s0 = "init cfg repos :: ('a, 'b) State"
  have r: "run st cfg schedule ?s0 = Some s"
    using assms(2) by (simp add: ProcessRepos_def)
  have sz: "Size (wg ?s0) = 1"
    using assms(1) by (simp add: init_def New_def)
  have ser: "serial_invariant st cfg repos s"
    using invariant_init sz serial_invariant_init r by (rule serial_run)
  have inv: "invariant st cfg repos s"
    using assms(2) by (rule invariant_ProcessRepos)
  then have "todo s = []" and "goroutines s = []"
    using assms(3) by (simp_all add: invariant_def)
  then show ?thesis
    using ser assms(3) by (simp add: serial_invariant_def)
qed

subsection \<open>With at most one task that appends nothing is lost\<close>

lemma mset_concat_update_nth:
  assumes "i < length xs"
  shows "mset (concat (map f (xs[i := y]))) + mset (f (xs ! i))
       = mset (concat (map f xs)) + mset (f y)"
proof -
  have xs: "xs = take i xs @ xs ! i # drop (Suc i) xs"
    using assms by (rule id_take_nth_drop)
  have "xs[i := y] = take i xs @ y # drop (Suc i) xs"
    using assms by (rule upd_conv_take_nth_drop)
  then have "mset (concat (map f (xs[i := y]))) + mset (f (xs ! i))
      = mset (concat (map f (take i xs @ xs ! i # drop (Suc i) xs))) + mset (f y)"
    by simp
  then show ?thesis
    using xs by simp
qed

lemma mset_concat_without_nth:
  assumes "i < length xs"
  shows "mset (concat (map f (take i xs @ drop (Suc i) xs))) + mset (f (xs ! i))
       = mset (concat (map f xs))"
proof -
  have "xs = take i xs @ xs ! i # drop (Suc i) xs"
    using assms by (rule id_take_nth_drop)
  then have "mset (concat (map f xs))
      = mset (concat (map f (take i xs @ xs ! i # drop (Suc i) xs)))"
    by simp
  then show ?thesis
    by simp
qed

lemma set_update_others:
  assumes "i < length xs"
  shows "set (xs[i := y]) = insert y (set (take i xs @ drop (Suc i) xs))"
proof -
  have "xs[i := y] = take i xs @ y # drop (Suc i) xs"
    using assms by (rule upd_conv_take_nth_drop)
  then show ?thesis by simp
qed

text \<open>The number of appends depends on the repositories only, not on their order.\<close>

lemma appends_mset:
  "length (concat (map (appended st cfg) rs))
     = sum_mset (image_mset (\<lambda>repo. length (appended st cfg repo)) (mset rs))"
  by (induction rs) simp_all

lemma appends_accounted:
  assumes "invariant st cfg repos s"
  shows "length (concat (map (appended st cfg) (todo s)))
       + length (concat (map (appended st cfg) (map fst (goroutines s))))
       + length (concat (map (appended st cfg) (map fst (finished s))))
       = length (concat (map (appended st cfg) repos))"
proof -
  have "mset (todo s) + mset (map fst (goroutines s)) + mset (map fst (finished s)) = mset repos"
    using assms by (simp add: invariant_def)
  then have "sum_mset (image_mset (\<lambda>repo. length (appended st cfg repo))
        (mset (todo s) + mset (map fst (goroutines s)) + mset (map fst (finished s))))
      = sum_mset (image_mset (\<lambda>repo. length (appended st cfg repo)) (mset repos))"
    by simp
  then show ?thesis
    unfolding appends_mset by (simp del: mset_map)
qed

lemma mset_results_mset:
  "mset (concat (map (appended st cfg) rs))
     = sum_mset (image_mset (\<lambda>repo. mset (appended st cfg repo)) (mset rs))"
  by (induction rs) simp_all

lemma results_permuted:
  assumes "mset rs = mset rs'"
  shows "mset (concat (map (appended st cfg) rs)) = mset (concat (map (appended st cfg) rs'))"
  unfolding mset_results_mset using assms by simp

lemma short_list_by_mset:
  assumes "mset xs = mset ys" and "length ys \<le> 1"
  shows "xs = ys"
proof -
  have len: "length xs = length ys"
    using assms(1) by (rule mset_eq_length)
  show ?thesis
  proof (cases ys)
    case Nil
    with assms(1) show ?thesis by simp
  next
    case (Cons y ys')
    with assms(2) have ys: "ys = [y]" by simp
    with len obtain x where xs: "xs = [x]"
      by (cases xs) auto
    with ys assms(1) show ?thesis by simp
  qed
qed


lemma sum_list_zeroD:
  fixes f :: "'a \<Rightarrow> nat"
  assumes "sum_list (map f xs) = 0" and "x \<in> set xs"
  shows "f x = 0"
  using assms by (induction xs) auto

lemma silent_goroutine:
  assumes "goroutine_ok st cfg g" and "appended st cfg (fst g) = []"
  shows "seen_current shared g" and "written st cfg g = []"
proof -
  obtain repo calls ph where g: "g = (repo, calls, ph)"
    by (cases g) auto
  show "seen_current shared g"
    using assms unfolding g by (cases ph) (simp_all add: appended_def)
  show "written st cfg g = []"
    using assms unfolding g by (cases ph) simp_all
qed

lemma others_fail:
  assumes inv: "invariant st cfg repos s"
    and lone: "length (concat (map (appended st cfg) repos)) \<le> 1"
    and i: "i < length (goroutines s)"
    and mine: "appended st cfg (fst (goroutines s ! i)) \<noteq> []"
    and g: "g \<in> set (take i (goroutines s) @ drop (Suc i) (goroutines s))"
  shows "appended st cfg (fst g) = []"
proof -
  let ?n = "\<lambda>g :: ('a, 'b) Goroutine. length (appended st cfg (fst g))"
  let ?others = "take i (goroutines s) @ drop (Suc i) (goroutines s)"
  have "length (concat (map (appended st cfg) (map fst (goroutines s))))
      \<le> length (concat (map (appended st cfg) repos))"
    using appends_accounted [OF inv] by simp
  then have "sum_list (map ?n (goroutines s)) \<le> 1"
    using lone by (simp add: length_concat comp_def)
  moreover have "sum_list (map ?n ?others) + ?n (goroutines s ! i) = sum_list (map ?n (goroutines s))"
    using i by (rule sum_list_without_nth)
  moreover have "1 \<le> ?n (goroutines s ! i)"
    using mine by (cases "appended st cfg (fst (goroutines s ! i))") simp_all
  ultimately have zero: "sum_list (map ?n ?others) = 0"
    by linarith
  show ?thesis
    using sum_list_zeroD [OF zero g] by simp
qed

lemma lone_invariant_init: "lone_invariant st cfg (init cfg repos)"
  by (simp add: lone_invariant_def init_def)

lemma lone_loop_iteration:
  assumes "lone_invariant st cfg s" and "loop_iteration s = Some s'"
  shows "lone_invariant st cfg s'"
  using assms
  by (auto simp: lone_invariant_def loop_iteration_def split: list.splits option.splits)

lemma lone_wait_return:
  assumes "lone_invariant st cfg s" and "wait_return s = Some s'"
  shows "lone_invariant st cfg s'"
  using assms by (auto simp: lone_invariant_def wait_return_def split: if_splits)

lemma lone_goroutine_step:
  assumes inv: "invariant st cfg repos s"
    and lone: "length (concat (map (appended st cfg) repos)) \<le> 1"
    and ret: "returned s = None"
    and li: "lone_invariant st cfg s"
    and step: "goroutine_step st cfg i s = Some s'"
  shows "lone_invariant st cfg s'"
proof -
  from step have i: "i < length (goroutines s)"
    by (auto simp: goroutine_step_def split: if_splits)
  obtain repo calls ph where g: "goroutines s ! i = (repo, calls, ph)"
    by (cases "goroutines s ! i") auto
  have mem: "(repo, calls, ph) \<in> set (goroutines s)"
    using i g by (metis nth_mem)
  have all_ok: "\<forall>g \<in> set (goroutines s). goroutine_ok st cfg g"
    using inv by (simp add: invariant_def)
  have ok: "goroutine_ok st cfg (repo, calls, ph)"
    using all_ok mem by blast
  have shared: "mset (gitXargsRepositories s) =
      mset (concat (map (appended st cfg) (map fst (finished s)))) +
      mset (concat (map (written st cfg) (goroutines s)))"
    and all_seen: "\<forall>g \<in> set (goroutines s). seen_current (gitXargsRepositories s) g"
    using li by (simp_all add: lone_invariant_def)
  have upd: "mset (concat (map (written st cfg) ((goroutines s)[i := y])))
        + mset (written st cfg (repo, calls, ph))
      = mset (concat (map (written st cfg) (goroutines s))) + mset (written st cfg y)" for y
    using mset_concat_update_nth [OF i, of "written st cfg" y] g by simp
  have still_seen: "\<forall>g \<in> set ((goroutines s)[i := y]). seen_current (gitXargsRepositories s) g"
    if "seen_current (gitXargsRepositories s) y" for y
    using that all_seen by (auto dest!: in_set_updateD)
  show ?thesis
  proof (cases ph)
    case Spawned
    obtain calls' out where body: "task_body st cfg repo = (calls', out)"
      by (cases "task_body st cfg repo") auto
    show ?thesis
    proof (cases out)
      case (Inl err)
      with body Spawned step i g
      have s': "s' = s \<lparr> goroutines := (goroutines s)[i := (repo, calls', Returning (Some err))] \<rparr>"
        by (simp add: goroutine_step_def)
      have "appended st cfg repo = []"
        using body Inl by (simp add: appended_def)
      then show ?thesis
        using shared ret Spawned upd [of "(repo, calls', Returning (Some err))"]
          still_seen [of "(repo, calls', Returning (Some err))"]
        unfolding s' lone_invariant_def by simp
    next
      case (Inr gx)
      with body Spawned step i g
      have s': "s' = s \<lparr> goroutines := (goroutines s)[i := (repo, calls', AtAppend gx)] \<rparr>"
        by (simp add: goroutine_step_def)
      show ?thesis
        using shared ret Spawned upd [of "(repo, calls', AtAppend gx)"]
          still_seen [of "(repo, calls', AtAppend gx)"]
        unfolding s' lone_invariant_def by simp
    qed
  next
    case (AtAppend gx)
    with step i g
    have s': "s' = s \<lparr> goroutines :=
        (goroutines s)[i := (repo, calls, Holding gx (gitXargsRepositories s))] \<rparr>"
      by (simp add: goroutine_step_def)
    show ?thesis
      using shared ret AtAppend upd [of "(repo, calls, Holding gx (gitXargsRepositories s))"]
        still_seen [of "(repo, calls, Holding gx (gitXargsRepositories s))"]
      unfolding s' lone_invariant_def by simp
  next
    case (Holding gx seen)
    with step i g
    have s': "s' = s \<lparr> gitXargsRepositories := seen @ [gx],
        goroutines := (goroutines s)[i := (repo, calls, Returning None)] \<rparr>"
      by (simp add: goroutine_step_def)
    have seen: "seen = gitXargsRepositories s"
      using all_seen mem Holding by auto
    have mine: "appended st cfg repo = [gx]"
      using ok Holding by (simp add: appended_def)
    have others: "seen_current (seen @ [gx]) g'"
      if "g' \<in> set (take i (goroutines s) @ drop (Suc i) (goroutines s))" for g'
    proof -
      have "appended st cfg (fst g') = []"
        using inv lone i _ that by (rule others_fail) (simp add: g mine)
      moreover have "goroutine_ok st cfg g'"
        using all_ok that set_without_nth [of i "goroutines s"] by blast
      ultimately show ?thesis
        by (simp add: silent_goroutine)
    qed
    have "\<forall>g' \<in> set ((goroutines s)[i := (repo, calls, Returning None)]).
        seen_current (seen @ [gx]) g'"
      using others by (auto simp: set_update_others [OF i])
    then show ?thesis
      using shared ret Holding seen mine upd [of "(repo, calls, Returning None)"]
      unfolding s' lone_invariant_def by simp
  next
    case (Returning err)
    with step i g
    have s': "s' = s \<lparr> wg := Done (wg s),
        goroutines := take i (goroutines s) @ drop (Suc i) (goroutines s),
        finished := finished s @ [(repo, calls, err)] \<rparr>"
      by (simp add: goroutine_step_def)
    have sh': "gitXargsRepositories s' = gitXargsRepositories s"
      and gs': "goroutines s' = take i (goroutines s) @ drop (Suc i) (goroutines s)"
      and fin': "finished s' = finished s @ [(repo, calls, err)]"
      and ret': "returned s' = returned s"
      unfolding s' by simp_all
    have del: "mset (concat (map (written st cfg) (take i (goroutines s) @ drop (Suc i) (goroutines s))))
        + mset (appended st cfg repo)
      = mset (concat (map (written st cfg) (goroutines s)))"
      using mset_concat_without_nth [OF i, of "written st cfg"] g Returning by simp
    have new_fin: "mset (concat (map (appended st cfg) (map fst (finished s @ [(repo, calls, err)]))))
      = mset (concat (map (appended st cfg) (map fst (finished s)))) + mset (appended st cfg repo)"
      by simp
    have key: "mset (gitXargsRepositories s) =
        mset (concat (map (appended st cfg) (map fst (finished s @ [(repo, calls, err)])))) +
        mset (concat (map (written st cfg) (take i (goroutines s) @ drop (Suc i) (goroutines s))))"
      unfolding shared new_fin del [symmetric] by (simp add: ac_simps)
    have rest: "\<forall>g' \<in> set (take i (goroutines s) @ drop (Suc i) (goroutines s)).
        seen_current (gitXargsRepositories s) g'"
      using all_seen set_without_nth [of i "goroutines s"] by blast
    have "\<forall>res. returned s = Some res \<longrightarrow> fst res = gitXargsRepositories s"
      using ret by simp
    with key rest show ?thesis
      unfolding lone_invariant_def sh' gs' fin' ret' by blast
  qed
qed


lemma lone_exec:
  assumes inv: "invariant st cfg repos s"
    and lone: "length (concat (map (appended st cfg) repos)) \<le> 1"
    and li: "lone_invariant st cfg s" and ex: "exec st cfg a s = Some s'"
  shows "lone_invariant st cfg s'"
proof -
  from ex have ret: "returned s = None"
    by (cases "returned s") (simp_all add: exec_def)
  show ?thesis
  proof (cases a)
    case Loop_iteration
    with ex ret have "loop_iteration s = Some s'" by (simp add: exec_def)
    with li show ?thesis by (rule lone_loop_iteration)
  next
    case (Goroutine i)
    with ex ret have "goroutine_step st cfg i s = Some s'" by (simp add: exec_def)
    with inv lone ret li show ?thesis by (rule lone_goroutine_step)
  next
    case Wait_return
    with ex ret have "wait_return s = Some s'" by (simp add: exec_def)
    with li show ?thesis by (rule lone_wait_return)
  qed
qed

lemma lone_run:
  assumes "invariant st cfg repos s"
    and "length (concat (map (appended st cfg) repos)) \<le> 1"
    and "lone_invariant st cfg s" and "run st cfg acts s = Some s'"
  shows "lone_invariant st cfg s'"
  using assms
proof (induction acts arbitrary: s)
  case Nil
  then show ?case by simp
next
  case (Cons a acts)
  from Cons.prems(4) obtain t where t: "exec st cfg a s = Some t"
    and r: "run st cfg acts t = Some s'"
    by (auto split: option.splits)
  have "invariant st cfg repos t"
    using Cons.prems(1) t by (rule invariant_exec)
  moreover have "lone_invariant st cfg t"
    using Cons.prems(1,2,3) t by (rule lone_exec)
  ultimately show ?case
    using Cons.prems(2) r Cons.IH by blast
qed

lemma lone_ProcessRepos:
  assumes lone: "length (concat (map (appended st cfg) repos)) \<le> 1"
    and run: "ProcessRepos st cfg repos schedule = Some s"
    and ret: "returned s = Some (results, err)"
  shows "results = concat (map (appended st cfg) repos)"
proof -
  have r: "run st cfg schedule (init cfg repos) = Some s"
    using run by (simp add: ProcessRepos_def)
  have li: "lone_invariant st cfg s"
    using invariant_init lone lone_invariant_init r by (rule lone_run)
  have inv: "invariant st cfg repos s"
    using run by (rule invariant_ProcessRepos)
  then have empty: "todo s = []" "goroutines s = []"
    using ret by (simp_all add: invariant_def)
  then have "mset (map fst (finished s)) = mset repos"
    using inv by (simp add: invariant_def)
  then have "mset (concat (map (appended st cfg) (map fst (finished s))))
      = mset (concat (map (appended st cfg) repos))"
    by (rule results_permuted)
  moreover have "mset results = mset (concat (map (appended st cfg) (map fst (finished s))))"
    using li ret empty by (simp add: lone_invariant_def)
  ultimately have "mset results = mset (concat (map (appended st cfg) repos))"
    by simp
  then show ?thesis
    using lone by (rule short_list_by_mset)
qed

subsection \<open>A task that fails touches nothing that is shared\<close>

lemma failing_task_frame:
  assumes inv: "invariant st cfg repos s"
    and i: "i < length (goroutines s)"
    and g: "goroutines s ! i = (repo, calls, ph)"
    and fails: "appended st cfg repo = []"
    and ex: "exec st cfg (Goroutine i) s = Some s'"
  shows "gitXargsRepositories s' = gitXargsRepositories s \<and>
         todo s' = todo s \<and>
         returned s' = returned s \<and>
         current (wg s') \<le> current (wg s) \<and>
         take i (goroutines s') = take i (goroutines s) \<and>
         (drop (Suc i) (goroutines s') = drop (Suc i) (goroutines s) \<or>
          drop i (goroutines s') = drop (Suc i) (goroutines s))"
proof -
  from ex have ret: "returned s = None"
    by (cases "returned s") (simp_all add: exec_def)
  with ex have step: "goroutine_step st cfg i s = Some s'"
    by (simp add: exec_def)
  have "(repo, calls, ph) \<in> set (goroutines s)"
    using i g by (metis nth_mem)
  then have ok: "goroutine_ok st cfg (repo, calls, ph)"
    using inv by (simp add: invariant_def)
  show ?thesis
  proof (cases ph)
    case Spawned
    obtain calls' out where body: "task_body st cfg repo = (calls', out)"
      by (cases "task_body st cfg repo") auto
    with fails obtain err where "out = Inl err"
      by (cases out) (simp_all add: appended_def)
    with body Spawned step i g
    have "s' = s \<lparr> goroutines := (goroutines s)[i := (repo, calls', Returning (Some err))] \<rparr>"
      by (simp add: goroutine_step_def)
    then show ?thesis
      by simp
  next
    case (AtAppend gx)
    with ok fails show ?thesis
      by (simp add: appended_def)
  next
    case (Holding gx seen)
    with ok fails show ?thesis
      by (simp add: appended_def)
  next
    case (Returning err)
    with step i g
    have "s' = s \<lparr> wg := Done (wg s),
        goroutines := take i (goroutines s) @ drop (Suc i) (goroutines s),
        finished := finished s @ [(repo, calls, err)] \<rparr>"
      by (simp add: goroutine_step_def)
    then show ?thesis
      using i by (simp add: Done_def)
  qed
qed

section \<open>The orchestrator: ceiling, isolation, results\<close>

text \<open>
  C1: with a positive \<open>MaxConcurrentRepos\<close>, in every state that a run of \<open>ProcessRepos\<close>
  can reach, under any schedule and for any list of repositories, the number of tasks
  that have been started and have not yet given their slot back is at most
  \<open>MaxConcurrentRepos\<close>. With \<open>MaxConcurrentRepos = 0\<close> there is a schedule under which
  the tasks of all repositories of the list are running at once.
\<close>

theorem ProcessRepos_concurrency_ceiling:
  "(0 < MaxConcurrentRepos cfg \<longrightarrow>
      (\<forall>schedule s. ProcessRepos st cfg repos schedule = Some s \<longrightarrow>
         int (length (goroutines s)) \<le> MaxConcurrentRepos cfg)) \<and>
   (MaxConcurrentRepos cfg = 0 \<longrightarrow>
      (\<exists>schedule s. ProcessRepos st cfg repos schedule = Some s \<and>
         map fst (goroutines s) = repos))"
proof (intro conjI impI allI)
  fix schedule s
  assume "0 < MaxConcurrentRepos cfg" and "ProcessRepos st cfg repos schedule = Some s"
  then show "int (length (goroutines s)) \<le> MaxConcurrentRepos cfg"
    using invariant_ProcessRepos [of st cfg repos schedule s]
    by (auto simp: invariant_def)
next
  let ?s0 = "init cfg repos :: ('a, 'b) State"
  assume "MaxConcurrentRepos cfg = 0"
  then have "Size (wg ?s0) \<le> 0"
    by (simp add: init_def New_def)
  moreover have "returned ?s0 = None"
    by (simp add: init_def)
  ultimately have "\<exists>s'. run st cfg (replicate (length (todo ?s0)) Loop_iteration) ?s0 = Some s'
      \<and> map fst (goroutines s') = map fst (goroutines ?s0) @ todo ?s0"
    by (rule all_at_once)
  then show "\<exists>schedule s. ProcessRepos st cfg repos schedule = Some s
      \<and> map fst (goroutines s) = repos"
    unfolding ProcessRepos_def by (auto simp: init_def)
qed

text \<open>
  C1, at a concrete input: with a ceiling of two and three repositories, two loop
  iterations start two tasks and the third \<open>wg.Add()\<close> cannot be passed; with the
  default ceiling of zero the three tasks run at once.
\<close>

theorem ProcessRepos_concurrency_ceiling_witness:
  "0 < MaxConcurrentRepos config_two_at_once \<and>
   (\<exists>s. ProcessRepos all_succeed config_two_at_once [repo_a, repo_b, repo_c]
          [Loop_iteration, Loop_iteration] = Some s \<and>
        int (length (goroutines s)) \<le> MaxConcurrentRepos config_two_at_once) \<and>
   ProcessRepos all_succeed config_two_at_once [repo_a, repo_b, repo_c]
     [Loop_iteration, Loop_iteration, Loop_iteration] = None \<and>
   MaxConcurrentRepos default_config = 0 \<and>
   (\<exists>schedule s. ProcessRepos all_succeed default_config [repo_a, repo_b, repo_c] schedule = Some s \<and>
        map fst (goroutines s) = [repo_a, repo_b, repo_c])"
  using ProcessRepos_concurrency_ceiling [of config_two_at_once all_succeed "[repo_a, repo_b, repo_c]"]
    ProcessRepos_concurrency_ceiling [of default_config all_succeed "[repo_a, repo_b, repo_c]"]
  by (simp add: ProcessRepos_def init_def New_def exec_def loop_iteration_def goroutine_step_def
      wait_return_def Add_def Done_def Wait_def task_body_def task_result_def ProcessRepo_def
      default_config_def config_two_at_once_def NewGitXargsConfig_def)

text \<open>
  C7: a failure in one repository does nothing to the pipeline of another. For every
  run of \<open>ProcessRepos\<close>, under every schedule and ceiling:
  \<^item> a run that has returned has run the task of every repository of the list to its
    end, each with the steps and the outcome that repository has on its own
    (\<open>task_result\<close> looks at no other repository);
  \<^item> a step of a task whose pipeline fails leaves the shared slice, the loop and every
    other running task as they were, and takes no slot of the semaphore.

  And in every run in which at most one task gets as far as the append, that is, in
  which every repository but at most one fails: the list returned holds exactly the
  result of the repository that did not fail; before the return every running task can
  take its next step and the run is never stuck; and the run takes at most five
  actions for each repository and one more, so the tasks do end.
\<close>

theorem ProcessRepos_fault_isolation:
  assumes "ProcessRepos st cfg repos schedule = Some s"
  shows "(returned s \<noteq> None \<longrightarrow>
            mset (finished s) = mset (map (\<lambda>repo. (repo, task_result st cfg repo)) repos)) \<and>
         (\<forall>i repo calls ph s'.
            i < length (goroutines s) \<longrightarrow> goroutines s ! i = (repo, calls, ph) \<longrightarrow>
            appended st cfg repo = [] \<longrightarrow> exec st cfg (Goroutine i) s = Some s' \<longrightarrow>
              gitXargsRepositories s' = gitXargsRepositories s \<and>
              todo s' = todo s \<and>
              returned s' = returned s \<and>
              current (wg s') \<le> current (wg s) \<and>
              take i (goroutines s') = take i (goroutines s) \<and>
              (drop (Suc i) (goroutines s') = drop (Suc i) (goroutines s) \<or>
               drop i (goroutines s') = drop (Suc i) (goroutines s))) \<and>
         (length (concat (map (appended st cfg) repos)) \<le> 1 \<longrightarrow>
            (\<forall>results err. returned s = Some (results, err) \<longrightarrow>
               results = concat (map (appended st cfg) repos)) \<and>
            (returned s = None \<longrightarrow>
               (\<forall>i < length (goroutines s). \<exists>s'. exec st cfg (Goroutine i) s = Some s') \<and>
               (\<exists>a s'. exec st cfg a s = Some s')) \<and>
            length schedule + actions_left s \<le> 5 * length repos + 1)"
proof -
  have inv: "invariant st cfg repos s"
    using assms by (rule invariant_ProcessRepos)
  have r: "run st cfg schedule (init cfg repos) = Some s"
    using assms by (simp add: ProcessRepos_def)
  have bound: "length schedule + actions_left s \<le> 5 * length repos + 1"
    using run_bounded [OF r] by (simp add: actions_left_def init_def)
  have ended: "returned s \<noteq> None \<longrightarrow>
      mset (finished s) = mset (map (\<lambda>repo. (repo, task_result st cfg repo)) repos)"
    using inv finished_all by blast
  have frame: "gitXargsRepositories s' = gitXargsRepositories s \<and>
      todo s' = todo s \<and>
      returned s' = returned s \<and>
      current (wg s') \<le> current (wg s) \<and>
      take i (goroutines s') = take i (goroutines s) \<and>
      (drop (Suc i) (goroutines s') = drop (Suc i) (goroutines s) \<or>
       drop i (goroutines s') = drop (Suc i) (goroutines s))"
    if "i < length (goroutines s)" and "goroutines s ! i = (repo, calls, ph)"
      and "appended st cfg repo = []" and "exec st cfg (Goroutine i) s = Some s'"
    for i repo calls ph s'
    using inv that by (rule failing_task_frame)
  have alone: "results = concat (map (appended st cfg) repos)"
    if "length (concat (map (appended st cfg) repos)) \<le> 1" and "returned s = Some (results, err)"
    for results err
    using that(1) assms that(2) by (rule lone_ProcessRepos)
  have live: "(\<forall>i < length (goroutines s). \<exists>s'. exec st cfg (Goroutine i) s = Some s') \<and>
      (\<exists>a s'. exec st cfg a s = Some s')"
    if "returned s = None"
    using inv that never_stuck goroutine_can_step by blast
  show ?thesis
    using ended frame alone live bound by blast
qed

text \<open>
  C7, at a concrete input: the clone of \<open>a\<close> fails, the pipeline of \<open>b\<close> in the same
  run still invokes every step, returns no error and has its result returned; the
  last step of the failed task of \<open>a\<close> changes nothing but its own entry, and the task
  of \<open>b\<close> can take its step beside it.
\<close>

theorem ProcessRepos_fault_isolation_witness:
  "length (concat (map (appended clone_fails_for_a default_config) [repo_a, repo_b])) \<le> 1 \<and>
   appended clone_fails_for_a default_config repo_a = [] \<and>
   concat (map (appended clone_fails_for_a default_config) [repo_a, repo_b]) = [processed ''b''] \<and>
   ProcessRepos clone_fails_for_a default_config [repo_a, repo_b] failure_then_success =
     Some \<lparr> todo = [], wg = \<lparr> Size = 0, current = 0 \<rparr>, goroutines = [],
            gitXargsRepositories = [processed ''b''],
            finished = [(repo_a, [Call_cloneLocalRepository], Some Call_cloneLocalRepository),
                        (repo_b, every_call, None)],
            returned = Some ([processed ''b''], None) \<rparr> \<and>
   task_result clone_fails_for_a default_config repo_a
     = ([Call_cloneLocalRepository], Some Call_cloneLocalRepository) \<and>
   task_result clone_fails_for_a default_config repo_b = (every_call, None) \<and>
   ProcessRepos clone_fails_for_a default_config [repo_a, repo_b]
       [Loop_iteration, Loop_iteration, Goroutine 0] =
     Some \<lparr> todo = [], wg = \<lparr> Size = 0, current = 2 \<rparr>,
            goroutines = [(repo_a, [Call_cloneLocalRepository],
                             Returning (Some Call_cloneLocalRepository)),
                          (repo_b, [], Spawned)],
            gitXargsRepositories = [], finished = [], returned = None \<rparr> \<and>
   exec clone_fails_for_a default_config (Goroutine 0)
       \<lparr> todo = [], wg = \<lparr> Size = 0, current = 2 \<rparr>,
         goroutines = [(repo_a, [Call_cloneLocalRepository],
                          Returning (Some Call_cloneLocalRepository)),
                       (repo_b, [], Spawned)],
         gitXargsRepositories = [], finished = [], returned = None \<rparr> =
     Some \<lparr> todo = [], wg = \<lparr> Size = 0, current = 1 \<rparr>,
            goroutines = [(repo_b, [], Spawned)],
            gitXargsRepositories = [],
            finished = [(repo_a, [Call_cloneLocalRepository], Some Call_cloneLocalRepository)],
            returned = None \<rparr> \<and>
   (\<exists>s'. exec clone_fails_for_a default_config (Goroutine 1)
           \<lparr> todo = [], wg = \<lparr> Size = 0, current = 2 \<rparr>,
             goroutines = [(repo_a, [Call_cloneLocalRepository],
                              Returning (Some Call_cloneLocalRepository)),
                           (repo_b, [], Spawned)],
             gitXargsRepositories = [], finished = [], returned = None \<rparr> = Some s')"
proof -
  have 1: "ProcessRepos clone_fails_for_a default_config [repo_a, repo_b] failure_then_success =
     Some \<lparr> todo = [], wg = \<lparr> Size = 0, current = 0 \<rparr>, goroutines = [],
            gitXargsRepositories = [processed ''b''],
            finished = [(repo_a, [Call_cloneLocalRepository], Some Call_cloneLocalRepository),
                        (repo_b, every_call, None)],
            returned = Some ([processed ''b''], None) \<rparr>"
    by (simp add: ProcessRepos_def init_def New_def exec_def loop_iteration_def goroutine_step_def
      wait_return_def Add_def Done_def Wait_def task_body_def task_result_def ProcessRepo_def
      clone_fails_for_a_def repo_a_def repo_b_def processed_def every_call_def
      failure_then_success_def double_def default_config_def sample_common_def NewGitXargsConfig_def)
  have 2: "ProcessRepos clone_fails_for_a default_config [repo_a, repo_b]
       [Loop_iteration, Loop_iteration, Goroutine 0] =
     Some \<lparr> todo = [], wg = \<lparr> Size = 0, current = 2 \<rparr>,
            goroutines = [(repo_a, [Call_cloneLocalRepository],
                             Returning (Some Call_cloneLocalRepository)),
                          (repo_b, [], Spawned)],
            gitXargsRepositories = [], finished = [], returned = None \<rparr>"
    by (simp add: ProcessRepos_def init_def New_def exec_def loop_iteration_def goroutine_step_def
      wait_return_def Add_def Done_def Wait_def task_body_def task_result_def ProcessRepo_def
      clone_fails_for_a_def repo_a_def repo_b_def processed_def every_call_def
      failure_then_success_def double_def default_config_def sample_common_def NewGitXargsConfig_def)
  have 3: "task_result clone_fails_for_a default_config repo_a
     = ([Call_cloneLocalRepository], Some Call_cloneLocalRepository)"
    by (simp add: ProcessRepos_def init_def New_def exec_def loop_iteration_def goroutine_step_def
      wait_return_def Add_def Done_def Wait_def task_body_def task_result_def ProcessRepo_def
      clone_fails_for_a_def repo_a_def repo_b_def processed_def every_call_def
      failure_then_success_def double_def default_config_def sample_common_def NewGitXargsConfig_def)
  have 4: "task_result clone_fails_for_a default_config repo_b = (every_call, None)"
    by (simp add: ProcessRepos_def init_def New_def exec_def loop_iteration_def goroutine_step_def
      wait_return_def Add_def Done_def Wait_def task_body_def task_result_def ProcessRepo_def
      clone_fails_for_a_def repo_a_def repo_b_def processed_def every_call_def
      failure_then_success_def double_def default_config_def sample_common_def NewGitXargsConfig_def)
  have 5: "appended clone_fails_for_a default_config repo_a = []"
    by (simp add: appended_def ProcessRepos_def init_def New_def exec_def loop_iteration_def goroutine_step_def
      wait_return_def Add_def Done_def Wait_def task_body_def task_result_def ProcessRepo_def
      clone_fails_for_a_def repo_a_def repo_b_def processed_def every_call_def
      failure_then_success_def double_def default_config_def sample_common_def NewGitXargsConfig_def)
  have 6: "appended clone_fails_for_a default_config repo_b = [processed ''b'']"
    by (simp add: appended_def ProcessRepos_def init_def New_def exec_def loop_iteration_def goroutine_step_def
      wait_return_def Add_def Done_def Wait_def task_body_def task_result_def ProcessRepo_def
      clone_fails_for_a_def repo_a_def repo_b_def processed_def every_call_def
      failure_then_success_def double_def default_config_def sample_common_def NewGitXargsConfig_def)
  have 7: "exec clone_fails_for_a default_config (Goroutine 0)
       \<lparr> todo = [], wg = \<lparr> Size = 0, current = 2 \<rparr>,
         goroutines = [(repo_a, [Call_cloneLocalRepository],
                          Returning (Some Call_cloneLocalRepository)),
                       (repo_b, [], Spawned)],
         gitXargsRepositories = [], finished = [], returned = None \<rparr> =
     Some \<lparr> todo = [], wg = \<lparr> Size = 0, current = 1 \<rparr>,
            goroutines = [(repo_b, [], Spawned)],
            gitXargsRepositories = [],
            finished = [(repo_a, [Call_cloneLocalRepository], Some Call_cloneLocalRepository)],
            returned = None \<rparr>"
    by (simp add: ProcessRepos_def init_def New_def exec_def loop_iteration_def goroutine_step_def
      wait_return_def Add_def Done_def Wait_def task_body_def task_result_def ProcessRepo_def
     )
  show ?thesis
    using ProcessRepos_fault_isolation [OF 1] ProcessRepos_fault_isolation [OF 2] 1 2 3 4 5 6 7
    by simp
qed

text \<open>
  C3 as stated fails: the repository \<open>a\<close> is cloned, its command then fails, and the
  list that \<open>ProcessRepos\<close> returns is empty, so the result of a repository that
  reached the cloned state is not in it.
\<close>

theorem ProcessRepos_drops_failed_repository:
  "cloneLocalRepository command_fails default_config repo_a = Inr (''/tmp/git-xargs-a'', ''a'') \<and>
   ProcessRepos command_fails default_config [repo_a] one_task_two_steps =
     Some \<lparr> todo = [], wg = \<lparr> Size = 0, current = 0 \<rparr>, goroutines = [],
            gitXargsRepositories = [],
            finished = [(repo_a,
                         [Call_cloneLocalRepository, Call_getLocalRepoHeadRef,
                          Call_getLocalWorkTree, Call_checkoutLocalBranch, Call_executeCommand],
                         Some Call_executeCommand)],
            returned = Some ([], None) \<rparr>"
  by (simp add: ProcessRepos_def init_def New_def exec_def loop_iteration_def goroutine_step_def
      wait_return_def Add_def Done_def Wait_def task_body_def task_result_def ProcessRepo_def
      command_fails_def repo_a_def one_task_two_steps_def
      double_def default_config_def sample_common_def NewGitXargsConfig_def)

text \<open>
  C3, amended: when the tasks run one at a time (\<open>MaxConcurrentRepos = 1\<close>), the list
  that \<open>ProcessRepos\<close> returns holds exactly what the tasks of the repositories append,
  in the order of the input: every result in it is the result of a repository of the
  run for which \<open>ProcessRepo\<close> returned no error and for which \<open>UpdateRepoRemote\<close>
  returned no error, and the result of a repository whose task returned an error is
  left out.
\<close>

theorem ProcessRepos_returns_successes_only:
  assumes "ProcessRepos st cfg repos schedule = Some s"
    and "returned s = Some (results, err)"
    and "MaxConcurrentRepos cfg = 1"
  shows "results = concat (map (appended st cfg) repos) \<and>
         (\<forall>gxargsrepo \<in> set results. \<exists>repo \<in> set repos. \<exists>calls.
            ProcessRepo st cfg repo = (calls, gxargsrepo, None) \<and>
            UpdateRepoRemote st cfg gxargsrepo = None)"
proof (intro conjI ballI)
  show all: "results = concat (map (appended st cfg) repos)"
    using assms(3,1,2) by (rule serial_ProcessRepos)
  fix gxargsrepo
  assume "gxargsrepo \<in> set results"
  then obtain repo where repo: "repo \<in> set repos" and "gxargsrepo \<in> set (appended st cfg repo)"
    unfolding all by auto
  then have "snd (task_body st cfg repo) = Inr gxargsrepo"
    by (cases "snd (task_body st cfg repo)") (simp_all add: appended_def)
  then show "\<exists>repo \<in> set repos. \<exists>calls.
      ProcessRepo st cfg repo = (calls, gxargsrepo, None) \<and>
      UpdateRepoRemote st cfg gxargsrepo = None"
    using repo task_body_InrD by blast
qed

text \<open>
  C3, amended, at a concrete input: with a ceiling of one, of the repositories \<open>a\<close>,
  whose clone fails, and \<open>b\<close>, the returned list holds the result of \<open>b\<close> alone.
\<close>

theorem ProcessRepos_returns_successes_only_witness:
  "ProcessRepos clone_fails_for_a config_one_at_a_time [repo_a, repo_b] one_after_the_other =
     Some \<lparr> todo = [], wg = \<lparr> Size = 1, current = 0 \<rparr>, goroutines = [],
            gitXargsRepositories = [processed ''b''],
            finished = [(repo_a, [Call_cloneLocalRepository], Some Call_cloneLocalRepository),
                        (repo_b, every_call, None)],
            returned = Some ([processed ''b''], None) \<rparr> \<and>
   MaxConcurrentRepos config_one_at_a_time = 1 \<and>
   (\<exists>repo \<in> set [repo_a, repo_b]. \<exists>calls.
      ProcessRepo clone_fails_for_a config_one_at_a_time repo = (calls, processed ''b'', None) \<and>
      UpdateRepoRemote clone_fails_for_a config_one_at_a_time (processed ''b'') = None) \<and>
   appended clone_fails_for_a config_one_at_a_time repo_a = [] \<and>
   appended clone_fails_for_a config_one_at_a_time repo_b = [processed ''b'']"
proof -
  have 1: "ProcessRepos clone_fails_for_a config_one_at_a_time [repo_a, repo_b]
      one_after_the_other =
     Some \<lparr> todo = [], wg = \<lparr> Size = 1, current = 0 \<rparr>, goroutines = [],
            gitXargsRepositories = [processed ''b''],
            finished = [(repo_a, [Call_cloneLocalRepository], Some Call_cloneLocalRepository),
                        (repo_b, every_call, None)],
            returned = Some ([processed ''b''], None) \<rparr>"
    by (simp add: ProcessRepos_def init_def New_def exec_def loop_iteration_def goroutine_step_def
      wait_return_def Add_def Done_def Wait_def task_body_def task_result_def ProcessRepo_def
      clone_fails_for_a_def config_one_at_a_time_def repo_a_def repo_b_def processed_def
      every_call_def one_after_the_other_def double_def default_config_def sample_common_def NewGitXargsConfig_def)
  have 2: "MaxConcurrentRepos config_one_at_a_time = 1"
    by (simp add: clone_fails_for_a_def config_one_at_a_time_def repo_a_def repo_b_def processed_def
      every_call_def one_after_the_other_def double_def default_config_def sample_common_def NewGitXargsConfig_def)
  have 3: "appended clone_fails_for_a config_one_at_a_time repo_a = []"
    by (simp add: appended_def ProcessRepos_def init_def New_def exec_def loop_iteration_def goroutine_step_def
      wait_return_def Add_def Done_def Wait_def task_body_def task_result_def ProcessRepo_def
      clone_fails_for_a_def config_one_at_a_time_def repo_a_def repo_b_def processed_def
      every_call_def one_after_the_other_def double_def default_config_def sample_common_def NewGitXargsConfig_def)
  have 4: "appended clone_fails_for_a config_one_at_a_time repo_b = [processed ''b'']"
    by (simp add: appended_def ProcessRepos_def init_def New_def exec_def loop_iteration_def goroutine_step_def
      wait_return_def Add_def Done_def Wait_def task_body_def task_result_def ProcessRepo_def
      clone_fails_for_a_def config_one_at_a_time_def repo_a_def repo_b_def processed_def
      every_call_def one_after_the_other_def double_def default_config_def sample_common_def NewGitXargsConfig_def)
  show ?thesis
    using ProcessRepos_returns_successes_only [OF 1 _ 2, of "[processed ''b'']" None] 1 2 3 4
    by simp
qed

text \<open>
  C2 against the code: the clone of the only repository fails, its task returns the
  clone error, and \<open>ProcessRepos\<close> returns an empty list with a nil error. The error
  appears in the log of ended tasks only, which stands for the value the \<open>go\<close>
  statement drops.
\<close>

theorem ProcessRepos_discards_task_error:
  "ProcessRepos clone_fails_for_a default_config [repo_a] one_task_two_steps =
     Some \<lparr> todo = [], wg = \<lparr> Size = 0, current = 0 \<rparr>, goroutines = [],
            gitXargsRepositories = [],
            finished = [(repo_a, [Call_cloneLocalRepository], Some Call_cloneLocalRepository)],
            returned = Some ([], None) \<rparr>"
  by (simp add: ProcessRepos_def init_def New_def exec_def loop_iteration_def goroutine_step_def
      wait_return_def Add_def Done_def Wait_def task_body_def task_result_def ProcessRepo_def
      clone_fails_for_a_def repo_a_def one_task_two_steps_def
      double_def default_config_def sample_common_def NewGitXargsConfig_def)

text \<open>
  C4 against the code: with the default configuration and two repositories whose
  pipelines both succeed, both tasks can have read the shared slice before either
  assigns to it; the second assignment then overwrites the first, and \<open>ProcessRepos\<close>
  returns one result although both tasks returned no error.
\<close>

theorem ProcessRepos_lost_append:
  "ProcessRepos all_succeed default_config [repo_a, repo_b] (take 6 racing_schedule) =
     Some \<lparr> todo = [], wg = \<lparr> Size = 0, current = 2 \<rparr>,
            goroutines = [(repo_a, every_call, Holding (processed ''a'') []),
                          (repo_b, every_call, Holding (processed ''b'') [])],
            gitXargsRepositories = [], finished = [], returned = None \<rparr> \<and>
   ProcessRepos all_succeed default_config [repo_a, repo_b] racing_schedule =
     Some \<lparr> todo = [], wg = \<lparr> Size = 0, current = 0 \<rparr>, goroutines = [],
            gitXargsRepositories = [processed ''b''],
            finished = [(repo_a, every_call, None), (repo_b, every_call, None)],
            returned = Some ([processed ''b''], None) \<rparr>"
  by (simp add: ProcessRepos_def init_def New_def exec_def loop_iteration_def goroutine_step_def
      wait_return_def Add_def Done_def Wait_def task_body_def task_result_def ProcessRepo_def
      all_succeed_def repo_a_def repo_b_def processed_def every_call_def racing_schedule_def
      double_def default_config_def sample_common_def NewGitXargsConfig_def)

section \<open>Configuration defaults and the access token\<close>

text \<open>
  C10: \<open>NewGitXargsConfig\<close> returns a configuration with \<open>MaxConcurrentRepos = 0\<close>, under
  which \<open>wg.Add()\<close> can always be passed, with \<open>CloneDepth = 1\<close>, with the commit
  message and the title and description of the pull request set to the defaults of
  package \<open>common\<close> (non-empty when those are), and with the dry-run, draft, skip-PR and
  skip-archived flags all false.
\<close>

theorem NewGitXargsConfig_defaults:
  "MaxConcurrentRepos (NewGitXargsConfig cm) = 0 \<and>
   (\<forall>n. Add ((New (MaxConcurrentRepos (NewGitXargsConfig cm))) \<lparr> current := n \<rparr>) \<noteq> None) \<and>
   CloneDepth (NewGitXargsConfig cm) = 1 \<and>
   CommitMessage (NewGitXargsConfig cm) = DefaultCommitMessage cm \<and>
   PullRequestTitle (NewGitXargsConfig cm) = DefaultPullRequestTitle cm \<and>
   PullRequestDescription (NewGitXargsConfig cm) = DefaultPullRequestDescription cm \<and>
   (DefaultCommitMessage cm \<noteq> '''' \<and> DefaultPullRequestTitle cm \<noteq> '''' \<and>
    DefaultPullRequestDescription cm \<noteq> '''' \<longrightarrow>
      CommitMessage (NewGitXargsConfig cm) \<noteq> '''' \<and>
      PullRequestTitle (NewGitXargsConfig cm) \<noteq> '''' \<and>
      PullRequestDescription (NewGitXargsConfig cm) \<noteq> '''') \<and>
   \<not> DryRun (NewGitXargsConfig cm) \<and>
   \<not> Draft (NewGitXargsConfig cm) \<and>
   \<not> SkipPullRequests (NewGitXargsConfig cm) \<and>
   \<not> SkipArchivedRepos (NewGitXargsConfig cm)"
  by (simp add: NewGitXargsConfig_def New_def Add_def)

text \<open>C10, at concrete non-empty default texts.\<close>

theorem NewGitXargsConfig_defaults_witness:
  "DefaultCommitMessage sample_common \<noteq> '''' \<and>
   DefaultPullRequestTitle sample_common \<noteq> '''' \<and>
   DefaultPullRequestDescription sample_common \<noteq> '''' \<and>
   CommitMessage (NewGitXargsConfig sample_common) \<noteq> '''' \<and>
   PullRequestTitle (NewGitXargsConfig sample_common) \<noteq> '''' \<and>
   PullRequestDescription (NewGitXargsConfig sample_common) \<noteq> '''' \<and>
   MaxConcurrentRepos (NewGitXargsConfig sample_common) = 0 \<and>
   CloneDepth (NewGitXargsConfig sample_common) = 1"
  using NewGitXargsConfig_defaults [of sample_common]
  by (simp add: sample_common_def)

text \<open>
  C8: \<open>EnsureGithubOauthTokenSet\<close> looks at the process environment only, never at a
  repository; it returns \<open>NoGithubOauthTokenProvidedErr\<close> (with a stack trace) exactly
  when \<open>GITHUB_OAUTH_TOKEN\<close> is unset or empty, and nil otherwise. At startup that error
  is fatal: whatever the repositories, the steps and the schedule, startup ends with it
  and no run of the orchestrator takes place, so no step of any repository is invoked;
  with the token set, startup hands the repositories to \<open>ProcessRepos\<close>.
\<close>

theorem missing_token_halts_startup:
  "EnsureGithubOauthTokenSet env =
     (if env ''GITHUB_OAUTH_TOKEN'' = None \<or> env ''GITHUB_OAUTH_TOKEN'' = Some ''''
      then Some (WithStackTrace NoGithubOauthTokenProvidedErr)
      else None) \<and>
   startup env st cfg repos schedule =
     (if env ''GITHUB_OAUTH_TOKEN'' = None \<or> env ''GITHUB_OAUTH_TOKEN'' = Some ''''
      then Inl (WithStackTrace NoGithubOauthTokenProvidedErr)
      else Inr (ProcessRepos st cfg repos schedule))"
  by (simp add: startup_def EnsureGithubOauthTokenSet_def Getenv_def split: option.splits)

text \<open>C8, at an empty environment, an empty token and a token that is set.\<close>


theorem missing_token_halts_startup_witness:
  "EnsureGithubOauthTokenSet Map.empty = Some (WithStackTrace NoGithubOauthTokenProvidedErr) \<and>
   EnsureGithubOauthTokenSet [''GITHUB_OAUTH_TOKEN'' \<mapsto> ''''] =
     Some (WithStackTrace NoGithubOauthTokenProvidedErr) \<and>
   EnsureGithubOauthTokenSet [''GITHUB_OAUTH_TOKEN'' \<mapsto> ''ghp_example''] = None \<and>
   startup Map.empty clone_fails_for_a default_config [repo_a, repo_b] failure_then_success =
     Inl (WithStackTrace NoGithubOauthTokenProvidedErr) \<and>
   startup [''GITHUB_OAUTH_TOKEN'' \<mapsto> ''''] clone_fails_for_a default_config [repo_a, repo_b]
       failure_then_success =
     Inl (WithStackTrace NoGithubOauthTokenProvidedErr) \<and>
   startup [''GITHUB_OAUTH_TOKEN'' \<mapsto> ''ghp_example''] clone_fails_for_a default_config
       [repo_a, repo_b] failure_then_success =
     Inr (ProcessRepos clone_fails_for_a default_config [repo_a, repo_b] failure_then_success)"
  using missing_token_halts_startup [of Map.empty clone_fails_for_a default_config
      "[repo_a, repo_b]" failure_then_success]
    missing_token_halts_startup [of "[''GITHUB_OAUTH_TOKEN'' \<mapsto> '''']" clone_fails_for_a
      default_config "[repo_a, repo_b]" failure_then_success]
    missing_token_halts_startup [of "[''GITHUB_OAUTH_TOKEN'' \<mapsto> ''ghp_example'']"
      clone_fails_for_a default_config "[repo_a, repo_b]" failure_then_success]
  by simp

section \<open>The pipeline of one repository: results and errors\<close>

text \<open>
  C6: when the clone, the HEAD lookup, the worktree and the branch checkout succeed and
  the command returns an error, \<open>ProcessRepo\<close> returns that very error with the result
  built so far, and the steps invoked for the repository end with the command:
  neither \<open>UpdateRepoLocal\<close> (staging, commit) nor \<open>UpdateRepoRemote\<close> (push, pull
  request) is invoked, in the pipeline or in the task around it.
\<close>

theorem ProcessRepo_command_error:
  assumes "cloneLocalRepository st config repo = Inr (repositoryDir, localRepository)"
    and "getLocalRepoHeadRef st config localRepository repo = Inr ref"
    and "getLocalWorkTree st repositoryDir localRepository repo = Inr worktree"
    and "checkoutLocalBranch st config ref worktree repo localRepository = Inr branchName"
    and "executeCommand st config repositoryDir repo = Some commandErr"
  shows "ProcessRepo st config repo =
           ([Call_cloneLocalRepository, Call_getLocalRepoHeadRef, Call_getLocalWorkTree,
             Call_checkoutLocalBranch, Call_executeCommand],
            \<lparr> RepositoryDir = '''', RepositoryRemote = repo, RepositoryLocal = None,
              Branch = branchName \<rparr>,
            Some commandErr) \<and>
         task_result st config repo =
           ([Call_cloneLocalRepository, Call_getLocalRepoHeadRef, Call_getLocalWorkTree,
             Call_checkoutLocalBranch, Call_executeCommand],
            Some commandErr) \<and>
         Call_UpdateRepoLocal \<notin> set (fst (task_result st config repo)) \<and>
         Call_UpdateRepoRemote \<notin> set (fst (task_result st config repo))"
  using assms by (simp add: ProcessRepo_def task_result_def task_body_def)

text \<open>C6, at a repository whose command fails.\<close>

theorem ProcessRepo_command_error_witness:
  "cloneLocalRepository command_fails default_config repo_a = Inr (''/tmp/git-xargs-a'', ''a'') \<and>
   getLocalRepoHeadRef command_fails default_config ''a'' repo_a = Inr ''HEAD'' \<and>
   getLocalWorkTree command_fails ''/tmp/git-xargs-a'' ''a'' repo_a = Inr ''/tmp/git-xargs-a'' \<and>
   checkoutLocalBranch command_fails default_config ''HEAD'' ''/tmp/git-xargs-a'' repo_a ''a''
     = Inr ''refs/heads/fix'' \<and>
   executeCommand command_fails default_config ''/tmp/git-xargs-a'' repo_a
     = Some Call_executeCommand \<and>
   ProcessRepo command_fails default_config repo_a =
     ([Call_cloneLocalRepository, Call_getLocalRepoHeadRef, Call_getLocalWorkTree,
       Call_checkoutLocalBranch, Call_executeCommand],
      \<lparr> RepositoryDir = '''', RepositoryRemote = repo_a, RepositoryLocal = None,
        Branch = ''refs/heads/fix'' \<rparr>,
      Some Call_executeCommand) \<and>
   Call_UpdateRepoLocal \<notin> set (fst (task_result command_fails default_config repo_a)) \<and>
   Call_UpdateRepoRemote \<notin> set (fst (task_result command_fails default_config repo_a))"
proof -
  have 1: "cloneLocalRepository command_fails default_config repo_a
      = Inr (''/tmp/git-xargs-a'', ''a'')"
    by (simp add: command_fails_def repo_a_def double_def default_config_def sample_common_def NewGitXargsConfig_def)
  have 2: "getLocalRepoHeadRef command_fails default_config ''a'' repo_a = Inr ''HEAD''"
    by (simp add: command_fails_def repo_a_def double_def default_config_def sample_common_def NewGitXargsConfig_def)
  have 3: "getLocalWorkTree command_fails ''/tmp/git-xargs-a'' ''a'' repo_a
      = Inr ''/tmp/git-xargs-a''"
    by (simp add: command_fails_def repo_a_def double_def default_config_def sample_common_def NewGitXargsConfig_def)
  have 4: "checkoutLocalBranch command_fails default_config ''HEAD'' ''/tmp/git-xargs-a''
      repo_a ''a'' = Inr ''refs/heads/fix''"
    by (simp add: command_fails_def repo_a_def double_def default_config_def sample_common_def NewGitXargsConfig_def)
  have 5: "executeCommand command_fails default_config ''/tmp/git-xargs-a'' repo_a
      = Some Call_executeCommand"
    by (simp add: command_fails_def repo_a_def double_def default_config_def sample_common_def NewGitXargsConfig_def)
  show ?thesis
    using ProcessRepo_command_error [OF 1 2 3 4 5] 1 2 3 4 5 by simp
qed

text \<open>
  C5 against the code: \<open>UpdateRepoLocal\<close> returns an error for the repository, and
  \<open>ProcessRepo\<close> returns a nil error; the task then goes on to \<open>UpdateRepoRemote\<close> and
  ends without error.
\<close>

theorem ProcessRepo_swallows_staging_error:
  "UpdateRepoLocal staging_fails default_config ''/tmp/git-xargs-a'' ''/tmp/git-xargs-a''
     repo_a ''a'' = Some Call_UpdateRepoLocal \<and>
   ProcessRepo staging_fails default_config repo_a =
     ([Call_cloneLocalRepository, Call_getLocalRepoHeadRef, Call_getLocalWorkTree,
       Call_checkoutLocalBranch, Call_executeCommand, Call_UpdateRepoLocal],
      \<lparr> RepositoryDir = '''', RepositoryRemote = repo_a, RepositoryLocal = None,
        Branch = ''refs/heads/fix'' \<rparr>,
      None) \<and>
   task_result staging_fails default_config repo_a =
     ([Call_cloneLocalRepository, Call_getLocalRepoHeadRef, Call_getLocalWorkTree,
       Call_checkoutLocalBranch, Call_executeCommand, Call_UpdateRepoLocal,
       Call_UpdateRepoRemote],
      None)"
  by (simp add: ProcessRepo_def task_result_def task_body_def staging_fails_def repo_a_def
      double_def default_config_def sample_common_def NewGitXargsConfig_def)

text \<open>
  C9 as stated fails: the clone succeeds, the HEAD lookup fails, and the result that
  \<open>ProcessRepo\<close> returns has an empty \<open>RepositoryDir\<close> and a nil \<open>RepositoryLocal\<close>.
\<close>

theorem ProcessRepo_handle_unset_after_clone:
  "cloneLocalRepository head_fails default_config repo_a = Inr (''/tmp/git-xargs-a'', ''a'') \<and>
   ProcessRepo head_fails default_config repo_a =
     ([Call_cloneLocalRepository, Call_getLocalRepoHeadRef],
      \<lparr> RepositoryDir = '''', RepositoryRemote = repo_a, RepositoryLocal = None, Branch = '''' \<rparr>,
      Some Call_getLocalRepoHeadRef)"
  by (simp add: ProcessRepo_def head_fails_def repo_a_def
      double_def default_config_def sample_common_def NewGitXargsConfig_def)

text \<open>
  C9, amended: the result that \<open>ProcessRepo\<close> returns has \<open>RepositoryDir\<close> and
  \<open>RepositoryLocal\<close> set, to the directory and the handle the clone gave, exactly when
  every local step through \<open>UpdateRepoLocal\<close> succeeded; in every other result, before
  the clone has succeeded or after a later step has failed, they are empty and nil.
\<close>

theorem ProcessRepo_handle_set_on_success_only:
  "(if local_steps_succeed st config repo
    then \<exists>repositoryDir localRepository.
           cloneLocalRepository st config repo = Inr (repositoryDir, localRepository) \<and>
           RepositoryDir (fst (snd (ProcessRepo st config repo))) = repositoryDir \<and>
           RepositoryLocal (fst (snd (ProcessRepo st config repo))) = Some localRepository \<and>
           snd (snd (ProcessRepo st config repo)) = None
    else RepositoryDir (fst (snd (ProcessRepo st config repo))) = '''' \<and>
         RepositoryLocal (fst (snd (ProcessRepo st config repo))) = None)"
  by (auto simp: local_steps_succeed_def ProcessRepo_def Let_def split: sum.splits option.splits)

text \<open>
  C9, amended, at a repository whose steps all succeed and at one whose HEAD lookup
  fails.
\<close>

theorem ProcessRepo_handle_set_on_success_only_witness:
  "local_steps_succeed all_succeed default_config repo_a \<and>
   RepositoryDir (fst (snd (ProcessRepo all_succeed default_config repo_a))) = ''/tmp/git-xargs-a'' \<and>
   RepositoryLocal (fst (snd (ProcessRepo all_succeed default_config repo_a))) = Some ''a'' \<and>
   \<not> local_steps_succeed head_fails default_config repo_a \<and>
   RepositoryDir (fst (snd (ProcessRepo head_fails default_config repo_a))) = '''' \<and>
   RepositoryLocal (fst (snd (ProcessRepo head_fails default_config repo_a))) = None"
proof -
  have 1: "local_steps_succeed all_succeed default_config repo_a"
    by (simp add: local_steps_succeed_def all_succeed_def head_fails_def repo_a_def
      double_def default_config_def sample_common_def NewGitXargsConfig_def)
  have 2: "\<not> local_steps_succeed head_fails default_config repo_a"
    by (simp add: local_steps_succeed_def all_succeed_def head_fails_def repo_a_def
      double_def default_config_def sample_common_def NewGitXargsConfig_def)
  have 3: "cloneLocalRepository all_succeed default_config repo_a
      = Inr (''/tmp/git-xargs-a'', ''a'')"
    by (simp add: all_succeed_def head_fails_def repo_a_def
      double_def default_config_def sample_common_def NewGitXargsConfig_def)
  show ?thesis
    using ProcessRepo_handle_set_on_success_only [of all_succeed default_config repo_a]
      ProcessRepo_handle_set_on_success_only [of head_fails default_config repo_a] 1 2 3
    by simp
qed

end
